theory Spec2Isabelle
  imports Complex_Main "HOL-Library.Multiset" "HOL-Library.Sublist"
begin

section \<open>The montage pipeline (pipeline.py)\<close>

subsection \<open>Video settings\<close>

definition INSTAGRAM_WIDTH :: nat where
  "INSTAGRAM_WIDTH = 1080"

definition INSTAGRAM_HEIGHT :: nat where
  "INSTAGRAM_HEIGHT = 1920"

definition MIN_CLIP_DURATION :: real where
  "MIN_CLIP_DURATION = 1 / 2"

subsection \<open>Errors\<close>

text \<open>
  Python exceptions become values. The source raises a bare \<open>RuntimeError\<close> for the empty
  composition and lets every library exception propagate; each one gets a constructor named
  after the place it comes from.
\<close>

datatype error =
    DecodeError
  | ZeroDivisionError
  | NoUsableClips
  | EncodeError
  | DiscoveryError
  | DownloadError
  | UploadError
  | MoveError
  | UpdateError
  | InsertError

subsection \<open>Strings and paths\<close>

text \<open>\<open>str.lower\<close> on the ASCII letters; every other character is left as it is.\<close>

definition lower_char :: "char \<Rightarrow> char" where
  "lower_char c =
     (let n = (of_char c :: nat)
      in if 65 \<le> n \<and> n \<le> 90 then char_of (n + 32) else c)"

definition lower :: "string \<Rightarrow> string" where
  "lower s = map lower_char s"

text \<open>\<open>s.endswith(e)\<close> for one suffix, and for a tuple of suffixes.\<close>

definition endswith1 :: "string \<Rightarrow> string \<Rightarrow> bool" where
  "endswith1 s e = (length e \<le> length s \<and> drop (length s - length e) s = e)"

definition endswith :: "string \<Rightarrow> string list \<Rightarrow> bool" where
  "endswith s es = list_ex (endswith1 s) es"

definition video_exts :: "string list" where
  "video_exts = [''.mp4'', ''.mov'', ''.m4v'', ''.avi'', ''.mkv'']"

definition image_exts :: "string list" where
  "image_exts = [''.jpg'', ''.jpeg'', ''.png'', ''.webp'']"

text \<open>\<open>os.path.basename\<close>: what follows the last slash.\<close>

definition basename :: "string \<Rightarrow> string" where
  "basename p = rev (takeWhile (\<lambda>c. c \<noteq> CHR ''/'') (rev p))"

text \<open>
  \<open>os.path.dirname\<close>: what precedes the last slash, with the slashes at its end removed
  unless it consists of slashes only.
\<close>

definition dirname :: "string \<Rightarrow> string" where
  "dirname p =
     (let hd_part = rev (dropWhile (\<lambda>c. c \<noteq> CHR ''/'') (rev p))
      in if list_all (\<lambda>c. c = CHR ''/'') hd_part then hd_part
         else rev (dropWhile (\<lambda>c. c = CHR ''/'') (rev hd_part)))"

text \<open>\<open>os.path.join\<close> of two components.\<close>

definition path_join :: "string \<Rightarrow> string \<Rightarrow> string" where
  "path_join a b =
     (if b \<noteq> [] \<and> hd b = CHR ''/'' then b
      else if a = [] \<or> last a = CHR ''/'' then a @ b
      else a @ ''/'' @ b)"

subsection \<open>Clips\<close>

text \<open>
  A clip as far as the pipeline looks at it: the frame size, the duration, and the source
  it was opened from. \<open>clip_x1\<close> is the left edge, in the scaled frame, of the window
  that a crop keeps (0 for an uncropped clip).
\<close>

record clip =
  clip_w :: nat
  clip_h :: nat
  clip_duration :: real
  clip_x1 :: nat

text \<open>
  moviepy's \<open>resize(height=H)\<close>: the new size is \<open>[w * H / h, H]\<close>, truncated to
  integers; a frame of height 0 raises on the division.
\<close>

definition resize_height :: "nat \<Rightarrow> clip \<Rightarrow> error + clip" where
  "resize_height H c =
     (if clip_h c = 0 then Inl ZeroDivisionError
      else Inr (c\<lparr>clip_w := clip_w c * H div clip_h c, clip_h := H\<rparr>))"

text \<open>
  moviepy's \<open>crop(x_center=xc, width=wd)\<close>: the columns from \<open>int(xc - wd/2)\<close> up to
  \<open>int(xc + wd/2)\<close>, clipped to the frame by the array slice. The source calls it
  only with \<open>wd \<le> w\<close> and \<open>xc = w // 2\<close>, where the left edge is not negative.
\<close>

definition crop :: "nat \<Rightarrow> nat \<Rightarrow> clip \<Rightarrow> clip" where
  "crop xc wd c =
     (let x1 = (2 * xc - wd) div 2;
          x2 = min ((2 * xc + wd) div 2) (clip_w c)
      in c\<lparr>clip_w := x2 - x1, clip_x1 := clip_x1 c + x1\<rparr>)"

definition resize_crop_9x16_video :: "clip \<Rightarrow> error + clip" where
  "resize_crop_9x16_video v0 =
     (case resize_height INSTAGRAM_HEIGHT v0 of
        Inl e \<Rightarrow> Inl e
      | Inr v \<Rightarrow>
          (let x_center = clip_w v div 2
           in if clip_w v \<ge> INSTAGRAM_WIDTH
              then Inr (crop x_center INSTAGRAM_WIDTH v)
              else Inr v))"

subsection \<open>The environment of one build\<close>

text \<open>
  What the pipeline gets from outside the repository, as parameters: the decoders
  (\<open>VideoFileClip(path)\<close>, \<open>ImageClip(path)\<close>; \<open>None\<close> when they raise), the CLIP
  embedding of the sampled frames averaged (\<open>None\<close> when any step raises),
  \<open>torch.cosine_similarity\<close>, and the encoder behind \<open>write_videofile\<close>, which
  gives the bytes of the file it writes or \<open>None\<close> when it raises.
\<close>

record 'e media_env =
  open_video :: "string \<Rightarrow> clip option"
  open_image :: "string \<Rightarrow> (nat \<times> nat) option"
  embed_frames :: "string \<Rightarrow> 'e option"
  cosine_similarity :: "'e \<Rightarrow> 'e \<Rightarrow> real"
  write_videofile :: "(string \<times> clip) list \<Rightarrow> nat list option"

text \<open>
  \<open>_video_embedding\<close>: \<open>None\<close> when the file does not open, when the clip is shorter
  than the minimum, and when sampling or embedding raises.
\<close>

definition video_embedding :: "'e media_env \<Rightarrow> string \<Rightarrow> 'e option" where
  "video_embedding env p =
     (case open_video env p of
        None \<Rightarrow> None
      | Some clip_obj \<Rightarrow>
          if clip_duration clip_obj < MIN_CLIP_DURATION then None
          else embed_frames env p)"

definition resize_crop_9x16_image :: "'e media_env \<Rightarrow> string \<Rightarrow> error + clip" where
  "resize_crop_9x16_image env p =
     (case open_image env p of
        None \<Rightarrow> Inl DecodeError
      | Some (iw, ih) \<Rightarrow>
          (case resize_height INSTAGRAM_HEIGHT
                  \<lparr>clip_w = iw, clip_h = ih, clip_duration = 3, clip_x1 = 0\<rparr> of
             Inl e \<Rightarrow> Inl e
           | Inr img \<Rightarrow>
               (let x_center = clip_w img div 2
                in if clip_w img \<ge> INSTAGRAM_WIDTH
                   then Inr (crop x_center INSTAGRAM_WIDTH img)
                   else Inr img)))"

subsection \<open>Greedy similarity ordering\<close>

record 'e entry =
  path :: string
  emb :: 'e

text \<open>The embedding loop: a video enters \<open>remaining\<close> when its embedding is not \<open>None\<close>.\<close>

fun embed_all :: "'e media_env \<Rightarrow> string list \<Rightarrow> 'e entry list" where
  "embed_all env [] = []"
| "embed_all env (v # vs) =
     (case video_embedding env v of
        None \<Rightarrow> embed_all env vs
      | Some e \<Rightarrow> \<lparr>path = v, emb = e\<rparr> # embed_all env vs)"

text \<open>\<open>torch.argmax\<close> of a vector: the index of the first maximal value.\<close>

fun argmax :: "real list \<Rightarrow> nat" where
  "argmax [] = 0"
| "argmax [x] = 0"
| "argmax (x # y # ys) =
     (let i = argmax (y # ys) in if (y # ys) ! i \<le> x then 0 else Suc i)"

text \<open>\<open>remaining.pop(i)\<close>, for an index in range: the list without its element \<open>i\<close>.\<close>

definition pop :: "nat \<Rightarrow> 'a list \<Rightarrow> 'a list" where
  "pop i xs = take i xs @ drop (Suc i) xs"

lemma argmax_less: "xs \<noteq> [] \<Longrightarrow> argmax xs < length xs"
  by (induction xs rule: argmax.induct) (auto simp: Let_def)

lemma argmax_map_less: "xs \<noteq> [] \<Longrightarrow> argmax (map f xs) < length xs"
  using argmax_less [of "map f xs"] by simp

lemma length_pop: "i < length xs \<Longrightarrow> length (pop i xs) < length xs"
  by (simp add: pop_def)

text \<open>The \<open>while remaining\<close> loop; it returns what it appends to \<open>ordered_videos\<close>.\<close>

function greedy :: "'e media_env \<Rightarrow> 'e entry \<Rightarrow> 'e entry list \<Rightarrow> 'e entry list" where
  "greedy env current remaining =
     (if remaining = [] then []
      else
        (let sims = map (\<lambda>r. cosine_similarity env (emb current) (emb r)) remaining;
             next_idx = argmax sims;
             current' = remaining ! next_idx
         in current' # greedy env current' (pop next_idx remaining)))"
  by pat_completeness auto
termination
  by (relation "measure (\<lambda>(env, current, remaining). length remaining)")
     (auto simp: length_pop argmax_map_less)

declare greedy.simps [simp del]

definition order_videos :: "'e media_env \<Rightarrow> string list \<Rightarrow> 'e entry list" where
  "order_videos env videos =
     (case embed_all env videos of
        [] \<Rightarrow> []
      | current # remaining \<Rightarrow> current # greedy env current remaining)"

subsection \<open>Composition\<close>

text \<open>The two loops that fill \<open>final_clips\<close>; each clip keeps the path it was opened from.\<close>

fun compose_videos :: "'e media_env \<Rightarrow> 'e entry list \<Rightarrow> error + (string \<times> clip) list" where
  "compose_videos env [] = Inr []"
| "compose_videos env (v # vs) =
     (case open_video env (path v) of
        None \<Rightarrow> Inl DecodeError
      | Some vc \<Rightarrow>
          (case resize_crop_9x16_video vc of
             Inl e \<Rightarrow> Inl e
           | Inr c \<Rightarrow>
               (case compose_videos env vs of
                  Inl e \<Rightarrow> Inl e
                | Inr cs \<Rightarrow> Inr ((path v, c) # cs))))"

fun compose_images :: "'e media_env \<Rightarrow> string list \<Rightarrow> error + (string \<times> clip) list" where
  "compose_images env [] = Inr []"
| "compose_images env (im # ims) =
     (case resize_crop_9x16_image env im of
        Inl e \<Rightarrow> Inl e
      | Inr c \<Rightarrow>
          (case compose_images env ims of
             Inl e \<Rightarrow> Inl e
           | Inr cs \<Rightarrow> Inr ((im, c) # cs)))"

definition final_clips_of :: "'e media_env \<Rightarrow> string list \<Rightarrow> error + (string \<times> clip) list" where
  "final_clips_of env local_paths =
     (let videos = filter (\<lambda>p. endswith (lower p) video_exts) local_paths;
          images = filter (\<lambda>p. endswith (lower p) image_exts) local_paths;
          ordered_videos = order_videos env videos
      in case compose_videos env ordered_videos of
           Inl e \<Rightarrow> Inl e
         | Inr vcs \<Rightarrow>
             (case compose_images env images of
                Inl e \<Rightarrow> Inl e
              | Inr ics \<Rightarrow> Inr (vcs @ ics)))"

text \<open>
  \<open>build_montage_for_paths\<close>: the path of the file written, with the clips concatenated
  into it and its bytes.
\<close>

record montage =
  out_path :: string
  final_clips :: "(string \<times> clip) list"
  out_bytes :: "nat list"

definition build_montage_for_paths :: "'e media_env \<Rightarrow> string list \<Rightarrow> error + montage" where
  "build_montage_for_paths env local_paths =
     (case final_clips_of env local_paths of
        Inl e \<Rightarrow> Inl e
      | Inr fcs \<Rightarrow>
          if fcs = [] then Inl NoUsableClips
          else
            (let out_dir = (case local_paths of [] \<Rightarrow> ''/tmp'' | p # _ \<Rightarrow> dirname p);
                 outp = path_join out_dir ''montage_output.mp4''
             in case write_videofile env fcs of
                  None \<Rightarrow> Inl EncodeError
                | Some bs \<Rightarrow> Inr \<lparr>out_path = outp, final_clips = fcs, out_bytes = bs\<rparr>))"

section \<open>The build service (main.py)\<close>

subsection \<open>Catalog, storage and the log of effects\<close>

text \<open>A row of the \<open>files\<close> table, with the columns the service reads or writes.\<close>

record file_row =
  row_id :: nat
  row_name :: string
  file_path :: string
  created_at :: nat
  updated_at :: string
  file_size :: nat
  mime_type :: string
  is_trashed :: bool

text \<open>
  A request to the catalog or to the storage bucket. The log of a world holds the requests
  that succeeded, oldest first.
\<close>

datatype request =
    Select
  | Download string string
  | Upload string string
  | Move string string
  | Update nat string
  | Insert string string nat

text \<open>
  The state the service works on: the \<open>files\<close> table, the objects of the bucket, the
  clock, the log, and the three module globals.
\<close>

record world =
  files_table :: "file_row list"
  bucket :: "string \<rightharpoonup> nat list"
  clock :: nat
  log :: "request list"
  IS_CREATING :: bool
  LAST_RUN :: "string option"
  STARTED_AT :: "string option"

text \<open>
  What the service gets from outside, as parameters: whether a request raises, given the
  requests that succeeded so far; the renderings of a clock reading that the source uses
  (\<open>isoformat() + "Z"\<close>, \<open>strftime("%Y%m%d_%H%M%S")\<close>, \<open>strftime("%Y%m%d%H%M%S%f")\<close>);
  the name \<open>TmpDir\<close> gives the job directory; and \<open>WORK_DIR\<close>.
\<close>

record services =
  fails :: "request list \<Rightarrow> request \<Rightarrow> bool"
  isoformat :: "nat \<Rightarrow> string"
  strftime_sec :: "nat \<Rightarrow> string"
  strftime_usec :: "nat \<Rightarrow> string"
  job_name :: "nat \<Rightarrow> string"
  WORK_DIR :: string

datatype outcome = Returned | Raised error

definition now_iso :: "services \<Rightarrow> world \<Rightarrow> string" where
  "now_iso sv w = isoformat sv (clock w)"

text \<open>
  One request: time passes, and the request either raises or is done and logged.
\<close>

definition attempt :: "services \<Rightarrow> request \<Rightarrow> world \<Rightarrow> bool \<times> world" where
  "attempt sv rq w =
     (if fails sv (log w) rq then (False, w\<lparr>clock := Suc (clock w)\<rparr>)
      else (True, w\<lparr>clock := Suc (clock w), log := log w @ [rq]\<rparr>))"

subsection \<open>DB and storage helpers\<close>

text \<open>
  The query of \<open>sb_list_incoming_files\<close>: the rows whose path is like \<open>incoming/%\<close> and
  that are not trashed, by \<open>created_at\<close> ascending.
\<close>

definition incoming_query :: "file_row list \<Rightarrow> file_row list" where
  "incoming_query tbl =
     sort_key created_at
       (filter (\<lambda>r. prefix ''incoming/'' (file_path r) \<and> \<not> is_trashed r) tbl)"

definition sb_list_incoming_files :: "services \<Rightarrow> world \<Rightarrow> (error + file_row list) \<times> world" where
  "sb_list_incoming_files sv w =
     (case attempt sv Select w of
        (False, w') \<Rightarrow> (Inl DiscoveryError, w')
      | (True, w') \<Rightarrow> (Inr (incoming_query (files_table w)), w'))"

text \<open>
  The bytes land in a local file, which the model leaves to the decoders of the media
  environment; a missing object raises.
\<close>

definition sb_storage_download_to :: "services \<Rightarrow> string \<Rightarrow> string \<Rightarrow> world \<Rightarrow> (error + unit) \<times> world" where
  "sb_storage_download_to sv p local_path w =
     (if bucket w p = None then (Inl DownloadError, w\<lparr>clock := Suc (clock w)\<rparr>)
      else case attempt sv (Download p local_path) w of
             (False, w') \<Rightarrow> (Inl DownloadError, w')
           | (True, w') \<Rightarrow> (Inr (), w'))"

definition sb_storage_upload_from ::
    "services \<Rightarrow> nat list \<Rightarrow> string \<Rightarrow> string \<Rightarrow> world \<Rightarrow> (error + unit) \<times> world" where
  "sb_storage_upload_from sv bytes local_path dest_path w =
     (case attempt sv (Upload local_path dest_path) w of
        (False, w') \<Rightarrow> (Inl UploadError, w')
      | (True, w') \<Rightarrow> (Inr (), w'\<lparr>bucket := (bucket w')(dest_path \<mapsto> bytes)\<rparr>))"

text \<open>The storage's own move: a missing source raises.\<close>

definition storage_move :: "services \<Rightarrow> string \<Rightarrow> string \<Rightarrow> world \<Rightarrow> bool \<times> world" where
  "storage_move sv from_path to_path w =
     (case bucket w from_path of
        None \<Rightarrow> (False, w\<lparr>clock := Suc (clock w)\<rparr>)
      | Some b \<Rightarrow>
          (case attempt sv (Move from_path to_path) w of
             (False, w') \<Rightarrow> (False, w')
           | (True, w') \<Rightarrow>
               (True, w'\<lparr>bucket := ((bucket w')(from_path := None))(to_path \<mapsto> b)\<rparr>)))"

text \<open>\<open>os.path.splitext\<close>: split at the last dot of the last component, unless only dots precede it there.\<close>

definition splitext :: "string \<Rightarrow> string \<times> string" where
  "splitext p =
     (let b = basename p;
          ext = CHR ''.'' # rev (takeWhile (\<lambda>c. c \<noteq> CHR ''.'') (rev b));
          stem = take (length b - length ext) b
      in if CHR ''.'' \<in> set b \<and> \<not> list_all (\<lambda>c. c = CHR ''.'') stem
         then (take (length p - length ext) p, ext)
         else (p, []))"

definition sb_storage_move :: "services \<Rightarrow> string \<Rightarrow> string \<Rightarrow> world \<Rightarrow> (error + unit) \<times> world" where
  "sb_storage_move sv from_path to_path w =
     (case storage_move sv from_path to_path w of
        (True, w') \<Rightarrow> (Inr (), w')
      | (False, w') \<Rightarrow>
          (let (base, ext) = splitext to_path;
               ts = strftime_usec sv (clock w')
           in case storage_move sv from_path (base @ ''.'' @ ts @ ext) w' of
                (True, w'') \<Rightarrow> (Inr (), w'')
              | (False, w'') \<Rightarrow> (Inl MoveError, w'')))"

text \<open>The loop of \<open>sb_update_file_paths\<close> over the zipped pairs; it stops at the first update that raises.\<close>

fun update_rows :: "services \<Rightarrow> (file_row \<times> string) list \<Rightarrow> world \<Rightarrow> (error + unit) \<times> world" where
  "update_rows sv [] w = (Inr (), w)"
| "update_rows sv ((r, newp) # rest) w =
     (case attempt sv (Update (row_id r) newp) w of
        (False, w') \<Rightarrow> (Inl UpdateError, w')
      | (True, w') \<Rightarrow>
          update_rows sv rest
            (w'\<lparr>files_table :=
                  map (\<lambda>x. if row_id x = row_id r
                            then x\<lparr>file_path := newp, updated_at := now_iso sv w\<rparr> else x)
                    (files_table w')\<rparr>))"

definition sb_update_file_paths ::
    "services \<Rightarrow> file_row list \<Rightarrow> string list \<Rightarrow> world \<Rightarrow> (error + unit) \<times> world" where
  "sb_update_file_paths sv rows new_paths w = update_rows sv (zip rows new_paths) w"

text \<open>The database gives the new row an id no row has.\<close>

definition fresh_id :: "file_row list \<Rightarrow> nat" where
  "fresh_id rows = Suc (fold max (map row_id rows) 0)"

definition sb_insert_output_row ::
    "services \<Rightarrow> string \<Rightarrow> string \<Rightarrow> nat \<Rightarrow> world \<Rightarrow> (error + unit) \<times> world" where
  "sb_insert_output_row sv nm p sz w =
     (case attempt sv (Insert nm p sz) w of
        (False, w') \<Rightarrow> (Inl InsertError, w')
      | (True, w') \<Rightarrow>
          (Inr (), w'\<lparr>files_table := files_table w' @
              [\<lparr>row_id = fresh_id (files_table w'), row_name = nm, file_path = p,
                created_at = clock w, updated_at = [], file_size = sz,
                mime_type = ''video/mp4'', is_trashed = False\<rparr>]\<rparr>))"

subsection \<open>The build thread\<close>

record local_entry =
  row :: file_row
  local :: string

text \<open>The download loop; it stops at the first download that raises.\<close>

fun download_all ::
    "services \<Rightarrow> string \<Rightarrow> file_row list \<Rightarrow> world \<Rightarrow> (error + local_entry list) \<times> world" where
  "download_all sv tmp [] w = (Inr [], w)"
| "download_all sv tmp (r # rs) w =
     (let src = file_path r;
          local_path = path_join tmp (basename src)
      in case sb_storage_download_to sv src local_path w of
           (Inl e, w') \<Rightarrow> (Inl e, w')
         | (Inr u, w') \<Rightarrow>
             (case download_all sv tmp rs w' of
                (Inl e, w'') \<Rightarrow> (Inl e, w'')
              | (Inr es, w'') \<Rightarrow> (Inr (\<lparr>row = r, local = local_path\<rparr> # es), w'')))"

text \<open>The archive loop; it returns \<open>archived_paths\<close>.\<close>

fun archive_all ::
    "services \<Rightarrow> string \<Rightarrow> local_entry list \<Rightarrow> world \<Rightarrow> (error + string list) \<times> world" where
  "archive_all sv ts [] w = (Inr [], w)"
| "archive_all sv ts (e # es) w =
     (let src = file_path (row e);
          base = basename src;
          dest = ''archive/'' @ base @ ''.'' @ ts
      in case sb_storage_move sv src dest w of
           (Inl err, w') \<Rightarrow> (Inl err, w')
         | (Inr u, w') \<Rightarrow>
             (case archive_all sv ts es w' of
                (Inl err, w'') \<Rightarrow> (Inl err, w'')
              | (Inr ds, w'') \<Rightarrow> (Inr (dest # ds), w'')))"

text \<open>What follows the montage inside the \<open>with\<close> block: upload, archive, update, insert.\<close>

definition publish_and_archive ::
    "services \<Rightarrow> local_entry list \<Rightarrow> montage \<Rightarrow> world \<Rightarrow> outcome \<times> world" where
  "publish_and_archive sv local_entries m w =
     (let ts = strftime_sec sv (clock w);
          out_name = ''montage_output_'' @ ts @ ''.mp4'';
          out_remote = ''outputs/'' @ out_name
      in case sb_storage_upload_from sv (out_bytes m) (out_path m) out_remote w of
           (Inl e, w1) \<Rightarrow> (Raised e, w1)
         | (Inr u, w1) \<Rightarrow>
             (case archive_all sv ts local_entries w1 of
                (Inl e, w2) \<Rightarrow> (Raised e, w2)
              | (Inr archived_paths, w2) \<Rightarrow>
                  (case sb_update_file_paths sv (map row local_entries) archived_paths w2 of
                     (Inl e, w3) \<Rightarrow> (Raised e, w3)
                   | (Inr u', w3) \<Rightarrow>
                       (case sb_insert_output_row sv out_name out_remote
                               (length (out_bytes m)) w3 of
                          (Inl e, w4) \<Rightarrow> (Raised e, w4)
                        | (Inr u'', w4) \<Rightarrow>
                            (Returned, w4\<lparr>LAST_RUN := Some (now_iso sv w4)\<rparr>)))))"

text \<open>The body of the \<open>try\<close>.\<close>

definition pipeline_body :: "'e media_env \<Rightarrow> services \<Rightarrow> world \<Rightarrow> outcome \<times> world" where
  "pipeline_body env sv w =
     (case sb_list_incoming_files sv w of
        (Inl e, w1) \<Rightarrow> (Raised e, w1)
      | (Inr incoming_rows, w1) \<Rightarrow>
          if incoming_rows = [] then (Returned, w1)
          else
            (let tmp = path_join (WORK_DIR sv) (job_name sv (clock w1))
             in case download_all sv tmp incoming_rows w1 of
                  (Inl e, w2) \<Rightarrow> (Raised e, w2)
                | (Inr local_entries, w2) \<Rightarrow>
                    (case build_montage_for_paths env (map local local_entries) of
                       Inl e \<Rightarrow> (Raised e, w2)
                     | Inr m \<Rightarrow> publish_and_archive sv local_entries m w2)))"

text \<open>
  \<open>run_build_pipeline\<close> as one thread runs it from start to end: the check of the flag,
  the flag set under the lock, the body, and the \<open>finally\<close>.
\<close>

definition run_build_pipeline :: "'e media_env \<Rightarrow> services \<Rightarrow> world \<Rightarrow> outcome \<times> world" where
  "run_build_pipeline env sv w =
     (if IS_CREATING w then (Returned, w)
      else
        (let w1 = w\<lparr>IS_CREATING := True, STARTED_AT := Some (now_iso sv w)\<rparr>;
             (r, w2) = pipeline_body env sv w1
         in (r, w2\<lparr>IS_CREATING := False\<rparr>)))"

subsection \<open>Threads\<close>

text \<open>
  Several build threads and request handlers at once, as an interleaving of atomic steps.
  A build thread is at one of these places of \<open>run_build_pipeline\<close>: the check of the
  flag before the lock, the \<open>with RUN_LOCK\<close>, the check under the lock, the assignment
  of \<open>IS_CREATING\<close>, the assignment of \<open>STARTED_AT\<close> (after which the lock is released),
  the \<open>try\<close> body, the \<open>finally\<close>, or past its end. Python runs one thread at a time,
  so a read or a write of a global is one step.
\<close>

datatype pc = AtCheck | AtLock | AtCheck2 | AtSetFlag | AtSetStart | InTry | AtFinally | Finished

datatype response = Accepted | AlreadyRunning

record sys =
  shared :: world
  RUN_LOCK :: bool
  threads :: "pc list"
  responses :: "response list"

text \<open>
  The handler of \<open>POST /api/run\<close> for an authorised request: it answers
  \<open>already_running\<close> when the flag is set and starts a build thread otherwise. The new
  thread reads the flag again as its first step.
\<close>

definition run :: "sys \<Rightarrow> sys" where
  "run s =
     (if IS_CREATING (shared s) then s\<lparr>responses := responses s @ [AlreadyRunning]\<rparr>
      else s\<lparr>threads := threads s @ [AtCheck], responses := responses s @ [Accepted]\<rparr>)"











subsection \<open>Vocabulary for the effects of a run\<close>

text \<open>The part of the log that a run added.\<close>

definition new_log :: "world \<Rightarrow> world \<Rightarrow> request list" where
  "new_log w w' = drop (length (log w)) (log w')"

text \<open>The requests that write to the catalog, and those that write to the storage.\<close>

fun is_catalog_write :: "request \<Rightarrow> bool" where
  "is_catalog_write (Update i p) = True"
| "is_catalog_write (Insert n p z) = True"
| "is_catalog_write rq = False"

fun is_storage_write :: "request \<Rightarrow> bool" where
  "is_storage_write (Upload l d) = True"
| "is_storage_write (Move f t) = True"
| "is_storage_write rq = False"

text \<open>
  \<open>extends w w' xs\<close>: the world \<open>w'\<close> comes from \<open>w\<close> by the requests \<open>xs\<close>; the
  globals are as before, and so is the catalog (the storage) unless a request of
  \<open>xs\<close> writes to it.
\<close>

definition extends :: "world \<Rightarrow> world \<Rightarrow> request list \<Rightarrow> bool" where
  "extends w w' xs \<longleftrightarrow>
     log w' = log w @ xs \<and>
     IS_CREATING w' = IS_CREATING w \<and> LAST_RUN w' = LAST_RUN w \<and> STARTED_AT w' = STARTED_AT w \<and>
     (\<not> list_ex is_catalog_write xs \<longrightarrow> files_table w' = files_table w) \<and>
     (\<not> list_ex is_storage_write xs \<longrightarrow> bucket w' = bucket w)"

text \<open>
  The requests of one run, as the source builds them: the download of a row into the job
  directory, the upload of the montage, the move of a row into the archive (to the
  destination asked for, or to the one of the collision fallback), the update of a row,
  and the insert of the output row.
\<close>

definition local_of :: "string \<Rightarrow> file_row \<Rightarrow> string" where
  "local_of tmp x = path_join tmp (basename (file_path x))"

definition job_dir :: "services \<Rightarrow> world \<Rightarrow> string" where
  "job_dir sv w = path_join (WORK_DIR sv) (job_name sv (Suc (clock w)))"

definition download_rq :: "string \<Rightarrow> file_row \<Rightarrow> request" where
  "download_rq tmp x = Download (file_path x) (local_of tmp x)"

definition out_name_of :: "string \<Rightarrow> string" where
  "out_name_of ts = ''montage_output_'' @ ts @ ''.mp4''"

definition upload_rq :: "montage \<Rightarrow> string \<Rightarrow> request" where
  "upload_rq m ts = Upload (out_path m) (''outputs/'' @ out_name_of ts)"

definition archive_dest :: "string \<Rightarrow> file_row \<Rightarrow> string" where
  "archive_dest ts x = ''archive/'' @ basename (file_path x) @ ''.'' @ ts"

text \<open>
  The destination of the collision fallback of \<open>sb_storage_move\<close>, for the finer
  timestamp \<open>u\<close>.
\<close>

definition fallback_dest :: "string \<Rightarrow> string \<Rightarrow> string" where
  "fallback_dest to_path u = fst (splitext to_path) @ ''.'' @ u @ snd (splitext to_path)"

text \<open>
  \<open>archived w' xs ts x\<close>: in the world \<open>w'\<close> the object of the row \<open>x\<close> is no longer at
  its \<open>file_path\<close>; the requests \<open>xs\<close> hold its move to the archive destination for the
  timestamp \<open>ts\<close>, or to the destination of the collision fallback, and the bucket holds
  an object there. \<open>relocated w' ts x\<close>: the catalog of \<open>w'\<close> has the row of \<open>x\<close>, and
  every row with its id names the archive destination for \<open>ts\<close>.
\<close>

definition archived :: "world \<Rightarrow> request list \<Rightarrow> string \<Rightarrow> file_row \<Rightarrow> bool" where
  "archived w' xs ts x \<longleftrightarrow>
     bucket w' (file_path x) = None \<and>
     (\<exists>d. (d = archive_dest ts x \<or> (\<exists>v. d = fallback_dest (archive_dest ts x) v)) \<and>
          Move (file_path x) d \<in> set xs \<and> bucket w' d \<noteq> None)"

definition relocated :: "world \<Rightarrow> string \<Rightarrow> file_row \<Rightarrow> bool" where
  "relocated w' ts x \<longleftrightarrow>
     (\<exists>y\<in>set (files_table w'). row_id y = row_id x) \<and>
     (\<forall>y\<in>set (files_table w'). row_id y = row_id x \<longrightarrow> file_path y = archive_dest ts x)"

definition is_move_of :: "file_row \<Rightarrow> request \<Rightarrow> bool" where
  "is_move_of x rq \<longleftrightarrow> (\<exists>d. rq = Move (file_path x) d)"

definition update_rq :: "string \<Rightarrow> file_row \<Rightarrow> request" where
  "update_rq ts x = Update (row_id x) (archive_dest ts x)"

definition insert_rq :: "montage \<Rightarrow> string \<Rightarrow> request" where
  "insert_rq m ts = Insert (out_name_of ts) (''outputs/'' @ out_name_of ts) (length (out_bytes m))"

text \<open>
  \<open>trace_of rows tmp bm ts r xs\<close>: a run that found the pending rows \<open>rows\<close>, worked in
  the job directory \<open>tmp\<close>, got \<open>bm\<close> from the montage builder and the timestamp
  \<open>ts\<close>, can end with outcome \<open>r\<close> having made the requests \<open>xs\<close>. One rule for each
  place where the run can end.
\<close>

inductive trace_of ::
    "file_row list \<Rightarrow> string \<Rightarrow> error + montage \<Rightarrow> string \<Rightarrow> outcome \<Rightarrow> request list \<Rightarrow> bool"
  for rows :: "file_row list" and tmp :: string and bm :: "error + montage" and ts :: string
where
  at_discovery: "trace_of rows tmp bm ts (Raised DiscoveryError) []"
| at_nothing: "rows = [] \<Longrightarrow> trace_of rows tmp bm ts Returned [Select]"
| at_download:
    "k < length rows \<Longrightarrow>
     trace_of rows tmp bm ts (Raised DownloadError) (Select # map (download_rq tmp) (take k rows))"
| at_montage:
    "rows \<noteq> [] \<Longrightarrow> bm = Inl e \<Longrightarrow>
     trace_of rows tmp bm ts (Raised e) (Select # map (download_rq tmp) rows)"
| at_upload:
    "rows \<noteq> [] \<Longrightarrow> bm = Inr m \<Longrightarrow>
     trace_of rows tmp bm ts (Raised UploadError) (Select # map (download_rq tmp) rows)"
| at_move:
    "rows \<noteq> [] \<Longrightarrow> bm = Inr m \<Longrightarrow> length mvs < length rows \<Longrightarrow>
     list_all2 is_move_of (take (length mvs) rows) mvs \<Longrightarrow>
     trace_of rows tmp bm ts (Raised MoveError)
       (Select # map (download_rq tmp) rows @ upload_rq m ts # mvs)"
| at_update:
    "rows \<noteq> [] \<Longrightarrow> bm = Inr m \<Longrightarrow> list_all2 is_move_of rows mvs \<Longrightarrow> k < length rows \<Longrightarrow>
     trace_of rows tmp bm ts (Raised UpdateError)
       (Select # map (download_rq tmp) rows @ upload_rq m ts # mvs
          @ map (update_rq ts) (take k rows))"
| at_insert:
    "rows \<noteq> [] \<Longrightarrow> bm = Inr m \<Longrightarrow> list_all2 is_move_of rows mvs \<Longrightarrow>
     trace_of rows tmp bm ts (Raised InsertError)
       (Select # map (download_rq tmp) rows @ upload_rq m ts # mvs @ map (update_rq ts) rows)"
| at_end:
    "rows \<noteq> [] \<Longrightarrow> bm = Inr m \<Longrightarrow> list_all2 is_move_of rows mvs \<Longrightarrow>
     trace_of rows tmp bm ts Returned
       (Select # map (download_rq tmp) rows @ upload_rq m ts # mvs @ map (update_rq ts) rows
          @ [insert_rq m ts])"

section \<open>Sample inputs\<close>

text \<open>
  A media environment for the concrete runs below: every file opens as a 1920 by 1080
  video, two seconds long except \<open>s.mp4\<close> (0.3 seconds), and as a 1000 by 2000
  image; embeddings are integers and the similarity is the negated distance.
\<close>

definition ex_env :: "int media_env" where
  "ex_env =
     \<lparr>open_video = (\<lambda>p. Some \<lparr>clip_w = 1920, clip_h = 1080,
                               clip_duration = (if p = ''s.mp4'' then 3 / 10 else 2),
                               clip_x1 = 0\<rparr>),
      open_image = (\<lambda>p. Some (1000, 2000)),
      embed_frames = (\<lambda>p. if p = ''a.mp4'' then Some 0
                          else if p = ''b.mp4'' then Some 5
                          else if p = ''c.mp4'' then Some 1
                          else if p = ''s.mp4'' then Some 0
                          else None),
      cosine_similarity = (\<lambda>a b. - \<bar>real_of_int (a - b)\<bar>),
      write_videofile = (\<lambda>cs. Some (replicate (length cs) 0))\<rparr>"

text \<open>
  Services that never raise, and services whose storage refuses to move
  \<open>incoming/b.png\<close>. Clock readings are rendered in unary.
\<close>

definition ex_sv :: services where
  "ex_sv =
     \<lparr>fails = (\<lambda>lg rq. False),
      isoformat = (\<lambda>n. replicate n CHR ''i''),
      strftime_sec = (\<lambda>n. replicate n CHR ''s''),
      strftime_usec = (\<lambda>n. replicate n CHR ''u''),
      job_name = (\<lambda>n. ''job''),
      WORK_DIR = ''/w''\<rparr>"

definition ex_sv_b :: services where
  "ex_sv_b = ex_sv\<lparr>fails := (\<lambda>lg rq. case rq of Move f t \<Rightarrow> f = ''incoming/b.png'' | _ \<Rightarrow> False)\<rparr>"

text \<open>A storage that refuses the move of \<open>incoming/a.png\<close> to the destination first asked for.\<close>

definition ex_sv_c :: services where
  "ex_sv_c = ex_sv\<lparr>fails := (\<lambda>lg rq. rq = Move ''incoming/a.png'' ''archive/a.png.sss'')\<rparr>"

text \<open>A world with nothing pending, and one with two pending images.\<close>

definition ex_idle :: world where
  "ex_idle =
     \<lparr>files_table = [], bucket = Map.empty, clock = 0, log = [],
      IS_CREATING = False, LAST_RUN = None, STARTED_AT = None\<rparr>"

definition ex_row_a :: file_row where
  "ex_row_a =
     \<lparr>row_id = 1, row_name = ''a.png'', file_path = ''incoming/a.png'', created_at = 1,
      updated_at = [], file_size = 1, mime_type = ''image/png'', is_trashed = False\<rparr>"

definition ex_row_b :: file_row where
  "ex_row_b =
     \<lparr>row_id = 2, row_name = ''b.png'', file_path = ''incoming/b.png'', created_at = 2,
      updated_at = [], file_size = 1, mime_type = ''image/png'', is_trashed = False\<rparr>"

definition ex_pending :: world where
  "ex_pending =
     ex_idle\<lparr>files_table := [ex_row_a, ex_row_b],
             bucket := [''incoming/a.png'' \<mapsto> [1], ''incoming/b.png'' \<mapsto> [2]]\<rparr>"

text \<open>
  A row with an extension the pipeline does not know and a row for a video; an
  environment where every video is 0.3 seconds long; and three more worlds: the unknown
  file alone, the unknown file after an image, and the unknown file after the video.
\<close>

definition ex_row_n :: file_row where
  "ex_row_n =
     \<lparr>row_id = 3, row_name = ''n.txt'', file_path = ''incoming/n.txt'', created_at = 3,
      updated_at = [], file_size = 1, mime_type = ''text/plain'', is_trashed = False\<rparr>"

definition ex_row_s :: file_row where
  "ex_row_s =
     \<lparr>row_id = 4, row_name = ''s.mp4'', file_path = ''incoming/s.mp4'', created_at = 2,
      updated_at = [], file_size = 1, mime_type = ''video/mp4'', is_trashed = False\<rparr>"

definition ex_env_short :: "int media_env" where
  "ex_env_short =
     ex_env\<lparr>open_video := (\<lambda>p. Some \<lparr>clip_w = 1920, clip_h = 1080, clip_duration = 3 / 10,
                                        clip_x1 = 0\<rparr>)\<rparr>"

definition ex_only_unknown :: world where
  "ex_only_unknown =
     ex_idle\<lparr>files_table := [ex_row_n], bucket := [''incoming/n.txt'' \<mapsto> [3]]\<rparr>"

definition ex_mixed :: world where
  "ex_mixed =
     ex_idle\<lparr>files_table := [ex_row_a, ex_row_n],
             bucket := [''incoming/a.png'' \<mapsto> [1], ''incoming/n.txt'' \<mapsto> [3]]\<rparr>"

definition ex_unusable :: world where
  "ex_unusable =
     ex_idle\<lparr>files_table := [ex_row_s, ex_row_n],
             bucket := [''incoming/s.mp4'' \<mapsto> [4], ''incoming/n.txt'' \<mapsto> [3]]\<rparr>"

section \<open>Canvas normalization\<close>

lemma resize_crop_video_eq:
  "0 < clip_h v \<Longrightarrow>
   resize_crop_9x16_video v =
     Inr (let sw = clip_w v * 1920 div clip_h v
          in if 1080 \<le> sw
             then v\<lparr>clip_w := 1080, clip_h := 1920, clip_x1 := clip_x1 v + (sw div 2 - 540)\<rparr>
             else v\<lparr>clip_w := sw, clip_h := 1920\<rparr>)"
  by (auto simp: resize_crop_9x16_video_def resize_height_def crop_def Let_def
        INSTAGRAM_HEIGHT_def INSTAGRAM_WIDTH_def min_def)

lemma resize_crop_image_eq:
  "resize_crop_9x16_image env p =
     (case open_image env p of
        None \<Rightarrow> Inl DecodeError
      | Some (iw, ih) \<Rightarrow>
          resize_crop_9x16_video \<lparr>clip_w = iw, clip_h = ih, clip_duration = 3, clip_x1 = 0\<rparr>)"
  by (simp add: resize_crop_9x16_image_def resize_crop_9x16_video_def split: option.splits)

lemma half_bounds: "1080 \<le> (n::nat) \<Longrightarrow> 540 \<le> n div 2 \<and> n div 2 + 540 \<le> n"
  by arith

text \<open>
  C6. A clip of positive height is scaled to height 1920, its width becoming
  \<open>sw = w * 1920 div h\<close>. When \<open>sw\<close> is at least 1080 the result is exactly 1080 wide
  and 1920 high, and the window kept starts at \<open>sw div 2 - 540\<close>, inside the scaled frame
  around its centre column; when \<open>sw\<close> is below 1080 the result is \<open>sw\<close> wide, which is
  below 1080, and 1920 high, with no column added. The duration of a video is kept. A
  still image gets the duration 3 and then goes through the scale and crop of a video.
\<close>

theorem canvas_normalization:
  "0 < clip_h v \<Longrightarrow> open_image env p = Some (iw, ih) \<Longrightarrow>
   (\<exists>c. resize_crop_9x16_video v = Inr c \<and>
        clip_h c = 1920 \<and> clip_duration c = clip_duration v \<and>
        (let sw = clip_w v * 1920 div clip_h v
         in clip_w c = (if 1080 \<le> sw then 1080 else sw) \<and>
            clip_x1 c = clip_x1 v + (if 1080 \<le> sw then sw div 2 - 540 else 0) \<and>
            (if 1080 \<le> sw
             then 540 \<le> sw div 2 \<and> sw div 2 + 540 \<le> sw
             else clip_w c < 1080))) \<and>
   resize_crop_9x16_image env p =
     resize_crop_9x16_video \<lparr>clip_w = iw, clip_h = ih, clip_duration = 3, clip_x1 = 0\<rparr>"
  using half_bounds [of "clip_w v * 1920 div clip_h v"]
  by (simp add: resize_crop_video_eq resize_crop_image_eq Let_def)

theorem canvas_normalization_witness:
  "(\<exists>c. resize_crop_9x16_video \<lparr>clip_w = 1920, clip_h = 1080, clip_duration = 7, clip_x1 = 0\<rparr> = Inr c
        \<and> clip_w c = 1080 \<and> clip_h c = 1920 \<and> clip_x1 c = 1166)
   \<and> resize_crop_9x16_image
        \<lparr>open_video = (\<lambda>p. None), open_image = (\<lambda>p. Some (1000, 2000)),
         embed_frames = (\<lambda>p. None :: nat option), cosine_similarity = (\<lambda>a b. 0),
         write_videofile = (\<lambda>cs. None)\<rparr> ''a.png''
      = Inr \<lparr>clip_w = 960, clip_h = 1920, clip_duration = 3, clip_x1 = 0\<rparr>"
  using canvas_normalization [of "\<lparr>clip_w = 1920, clip_h = 1080, clip_duration = 7, clip_x1 = 0\<rparr>"
      "\<lparr>open_video = (\<lambda>p. None), open_image = (\<lambda>p. Some (1000, 2000)),
         embed_frames = (\<lambda>p. None :: nat option), cosine_similarity = (\<lambda>a b. 0),
         write_videofile = (\<lambda>cs. None)\<rparr>" "''a.png''" 1000 2000]
    canvas_normalization [of "\<lparr>clip_w = 1000, clip_h = 2000, clip_duration = 3, clip_x1 = 0\<rparr>"
      "\<lparr>open_video = (\<lambda>p. None), open_image = (\<lambda>p. Some (1000, 2000)),
         embed_frames = (\<lambda>p. None :: nat option), cosine_similarity = (\<lambda>a b. 0),
         write_videofile = (\<lambda>cs. None)\<rparr>" "''a.png''" 1000 2000]
  by (auto simp: Let_def)

section \<open>The sequencer\<close>

lemma argmax_max: "j < length xs \<Longrightarrow> xs ! j \<le> xs ! argmax xs"
proof (induction xs arbitrary: j rule: argmax.induct)
  case 1
  then show ?case by simp
next
  case (2 x)
  then show ?case by simp
next
  case (3 x y ys)
  show ?case
  proof (cases j)
    case 0
    then show ?thesis by (simp add: Let_def)
  next
    case (Suc k)
    with 3 have "(y # ys) ! k \<le> (y # ys) ! argmax (y # ys)" by simp
    with Suc show ?thesis by (simp add: Let_def)
  qed
qed

lemma argmax_first: "j < argmax xs \<Longrightarrow> xs ! j < xs ! argmax xs"
proof (induction xs arbitrary: j rule: argmax.induct)
  case 1
  then show ?case by simp
next
  case (2 x)
  then show ?case by simp
next
  case (3 x y ys)
  let ?i = "argmax (y # ys)"
  from "3.prems" have big: "\<not> (y # ys) ! ?i \<le> x" and j: "j < Suc ?i"
    by (auto simp: Let_def split: if_splits)
  show ?case
  proof (cases j)
    case 0
    with big show ?thesis by (simp add: Let_def)
  next
    case (Suc k)
    with j have "k < ?i" by simp
    with 3 have "(y # ys) ! k < (y # ys) ! ?i" by simp
    with Suc big show ?thesis by (simp add: Let_def)
  qed
qed

lemma mset_pop: "i < length xs \<Longrightarrow> add_mset (xs ! i) (mset (pop i xs)) = mset xs"
proof -
  assume i: "i < length xs"
  then have "xs = take i xs @ xs ! i # drop (Suc i) xs"
    by (simp add: id_take_nth_drop)
  then have "mset xs = mset (take i xs @ xs ! i # drop (Suc i) xs)"
    by simp
  then show ?thesis by (simp add: pop_def)
qed

lemma greedy_step:
  "remaining \<noteq> [] \<Longrightarrow>
   greedy env current remaining =
     (let i = argmax (map (\<lambda>r. cosine_similarity env (emb current) (emb r)) remaining)
      in remaining ! i # greedy env (remaining ! i) (pop i remaining))"
  by (subst greedy.simps) (simp add: Let_def)

lemma greedy_Nil: "greedy env current [] = []"
  by (subst greedy.simps) simp

lemma mset_greedy: "mset (greedy env current remaining) = mset remaining"
proof (induction env current remaining rule: greedy.induct)
  case (1 env current remaining)
  show ?case
  proof (cases "remaining = []")
    case True
    then show ?thesis by (simp add: greedy_Nil)
  next
    case False
    let ?i = "argmax (map (\<lambda>r. cosine_similarity env (emb current) (emb r)) remaining)"
    have lt: "?i < length remaining" using False by (rule argmax_map_less)
    have "mset (greedy env (remaining ! ?i) (pop ?i remaining)) = mset (pop ?i remaining)"
      using 1 False by simp
    then show ?thesis
      using False lt by (simp add: greedy_step Let_def mset_pop)
  qed
qed

lemma greedy_cong:
  "cosine_similarity env1 = cosine_similarity env2 \<Longrightarrow>
   greedy env1 current remaining = greedy env2 current remaining"
proof (induction env1 current remaining rule: greedy.induct)
  case (1 env current remaining)
  show ?case
  proof (cases "remaining = []")
    case True
    then show ?thesis by (simp add: greedy_Nil)
  next
    case False
    let ?i = "argmax (map (\<lambda>r. cosine_similarity env (emb current) (emb r)) remaining)"
    have "greedy env (remaining ! ?i) (pop ?i remaining) = greedy env2 (remaining ! ?i) (pop ?i remaining)"
      using 1 False by simp
    then show ?thesis
      using False "1.prems" by (simp add: greedy_step Let_def)
  qed
qed

lemma embed_all_cong:
  "\<forall>v\<in>set videos. video_embedding env1 v = video_embedding env2 v \<Longrightarrow>
   embed_all env1 videos = embed_all env2 videos"
  by (induction videos) (auto split: option.splits)

lemma path_embed_all:
  "map path (embed_all env videos) = filter (\<lambda>v. video_embedding env v \<noteq> None) videos"
  by (induction videos) (auto split: option.splits)

lemma emb_embed_all:
  "e \<in> set (embed_all env videos) \<Longrightarrow> video_embedding env (path e) = Some (emb e)"
  by (induction videos) (auto split: option.splits)

lemma mset_order_videos: "mset (order_videos env videos) = mset (embed_all env videos)"
  by (simp add: order_videos_def mset_greedy split: list.splits)

text \<open>
  C5. The candidates of the tour are the videos whose embedding is not \<open>None\<close>, in
  discovery order, each with its own vector. The order is empty when there is none; else
  it starts with the first candidate and continues with the greedy loop. Each turn of the
  loop takes, from the candidates left, one whose similarity to the item placed last is
  maximal, and the earliest such one (every candidate before it is strictly less similar),
  removes it from the list and goes on from it. The order is a permutation of the
  candidates, and it depends on nothing but the embeddings of the given videos and the
  similarity function.
\<close>

theorem sequencer_greedy_tour:
  "map path (embed_all env videos) = filter (\<lambda>v. video_embedding env v \<noteq> None) videos \<and>
   (\<forall>e\<in>set (embed_all env videos). video_embedding env (path e) = Some (emb e)) \<and>
   (embed_all env videos = [] \<longrightarrow> order_videos env videos = []) \<and>
   (\<forall>seed rest. embed_all env videos = seed # rest \<longrightarrow>
      order_videos env videos = seed # greedy env seed rest) \<and>
   greedy env current [] = [] \<and>
   (remaining \<noteq> [] \<longrightarrow>
      (\<exists>i<length remaining.
         greedy env current remaining = remaining ! i # greedy env (remaining ! i) (pop i remaining) \<and>
         (\<forall>j<length remaining.
            cosine_similarity env (emb current) (emb (remaining ! j))
              \<le> cosine_similarity env (emb current) (emb (remaining ! i))) \<and>
         (\<forall>j<i.
            cosine_similarity env (emb current) (emb (remaining ! j))
              < cosine_similarity env (emb current) (emb (remaining ! i))))) \<and>
   mset (order_videos env videos) = mset (embed_all env videos) \<and>
   mset (map path (order_videos env videos))
     = mset (filter (\<lambda>v. video_embedding env v \<noteq> None) videos) \<and>
   ((\<forall>v\<in>set videos. video_embedding env2 v = video_embedding env v) \<and>
    cosine_similarity env2 = cosine_similarity env \<longrightarrow>
      order_videos env2 videos = order_videos env videos)"
proof (intro conjI)
  show "map path (embed_all env videos) = filter (\<lambda>v. video_embedding env v \<noteq> None) videos"
    by (rule path_embed_all)
  show "\<forall>e\<in>set (embed_all env videos). video_embedding env (path e) = Some (emb e)"
    by (simp add: emb_embed_all)
  show "embed_all env videos = [] \<longrightarrow> order_videos env videos = []"
    by (simp add: order_videos_def)
  show "\<forall>seed rest. embed_all env videos = seed # rest \<longrightarrow>
      order_videos env videos = seed # greedy env seed rest"
    by (simp add: order_videos_def)
  show "greedy env current [] = []"
    by (rule greedy_Nil)
  show "remaining \<noteq> [] \<longrightarrow>
      (\<exists>i<length remaining.
         greedy env current remaining = remaining ! i # greedy env (remaining ! i) (pop i remaining) \<and>
         (\<forall>j<length remaining.
            cosine_similarity env (emb current) (emb (remaining ! j))
              \<le> cosine_similarity env (emb current) (emb (remaining ! i))) \<and>
         (\<forall>j<i.
            cosine_similarity env (emb current) (emb (remaining ! j))
              < cosine_similarity env (emb current) (emb (remaining ! i))))"
  proof
    assume ne: "remaining \<noteq> []"
    let ?sims = "map (\<lambda>r. cosine_similarity env (emb current) (emb r)) remaining"
    let ?i = "argmax ?sims"
    have lt: "?i < length remaining" using ne by (rule argmax_map_less)
    have step: "greedy env current remaining
        = remaining ! ?i # greedy env (remaining ! ?i) (pop ?i remaining)"
      using ne by (simp add: greedy_step Let_def)
    have mx: "\<forall>j<length remaining.
        cosine_similarity env (emb current) (emb (remaining ! j))
          \<le> cosine_similarity env (emb current) (emb (remaining ! ?i))"
    proof (intro allI impI)
      fix j assume j: "j < length remaining"
      then have "j < length ?sims" by simp
      then have "?sims ! j \<le> ?sims ! ?i" by (rule argmax_max)
      with j lt show "cosine_similarity env (emb current) (emb (remaining ! j))
          \<le> cosine_similarity env (emb current) (emb (remaining ! ?i))" by simp
    qed
    have fst: "\<forall>j<?i.
        cosine_similarity env (emb current) (emb (remaining ! j))
          < cosine_similarity env (emb current) (emb (remaining ! ?i))"
    proof (intro allI impI)
      fix j assume j: "j < ?i"
      then have "?sims ! j < ?sims ! ?i" by (rule argmax_first)
      with j lt show "cosine_similarity env (emb current) (emb (remaining ! j))
          < cosine_similarity env (emb current) (emb (remaining ! ?i))" by simp
    qed
    from lt step mx fst show "\<exists>i<length remaining.
         greedy env current remaining = remaining ! i # greedy env (remaining ! i) (pop i remaining) \<and>
         (\<forall>j<length remaining.
            cosine_similarity env (emb current) (emb (remaining ! j))
              \<le> cosine_similarity env (emb current) (emb (remaining ! i))) \<and>
         (\<forall>j<i.
            cosine_similarity env (emb current) (emb (remaining ! j))
              < cosine_similarity env (emb current) (emb (remaining ! i)))"
      by blast
  qed
  show "mset (order_videos env videos) = mset (embed_all env videos)"
    by (rule mset_order_videos)
  show "mset (map path (order_videos env videos))
     = mset (filter (\<lambda>v. video_embedding env v \<noteq> None) videos)"
  proof -
    have "mset (map path (order_videos env videos)) = image_mset path (mset (order_videos env videos))"
      by simp
    also have "\<dots> = image_mset path (mset (embed_all env videos))"
      by (simp only: mset_order_videos)
    also have "\<dots> = mset (map path (embed_all env videos))" by simp
    finally show ?thesis by (simp only: path_embed_all)
  qed
  show "(\<forall>v\<in>set videos. video_embedding env2 v = video_embedding env v) \<and>
    cosine_similarity env2 = cosine_similarity env \<longrightarrow>
      order_videos env2 videos = order_videos env videos"
  proof
    assume a: "(\<forall>v\<in>set videos. video_embedding env2 v = video_embedding env v) \<and>
      cosine_similarity env2 = cosine_similarity env"
    then have "embed_all env2 videos = embed_all env videos"
      by (simp add: embed_all_cong)
    moreover have "\<And>c r. greedy env2 c r = greedy env c r"
      by (rule greedy_cong) (simp add: a)
    ultimately show "order_videos env2 videos = order_videos env videos"
      by (simp add: order_videos_def split: list.splits)
  qed
qed

lemma ex_embedding:
  "video_embedding ex_env ''a.mp4'' = Some 0"
  "video_embedding ex_env ''b.mp4'' = Some 5"
  "video_embedding ex_env ''c.mp4'' = Some 1"
  "video_embedding ex_env ''s.mp4'' = None"
  "video_embedding (ex_env\<lparr>open_image := (\<lambda>p. None)\<rparr>) = video_embedding ex_env"
  by (simp_all add: video_embedding_def ex_env_def MIN_CLIP_DURATION_def fun_eq_iff)

lemma ex_sim: "cosine_similarity ex_env a b = - \<bar>real_of_int (a - b)\<bar>"
  by (simp add: ex_env_def)

theorem sequencer_greedy_tour_witness:
  "embed_all ex_env [''a.mp4'', ''s.mp4'', ''b.mp4'', ''c.mp4'']
     = [\<lparr>path = ''a.mp4'', emb = 0\<rparr>, \<lparr>path = ''b.mp4'', emb = 5\<rparr>, \<lparr>path = ''c.mp4'', emb = 1\<rparr>] \<and>
   order_videos ex_env [''a.mp4'', ''s.mp4'', ''b.mp4'', ''c.mp4'']
     = \<lparr>path = ''a.mp4'', emb = 0\<rparr>
         # greedy ex_env \<lparr>path = ''a.mp4'', emb = 0\<rparr>
             [\<lparr>path = ''b.mp4'', emb = 5\<rparr>, \<lparr>path = ''c.mp4'', emb = 1\<rparr>] \<and>
   [\<lparr>path = ''b.mp4'', emb = 5::int\<rparr>, \<lparr>path = ''c.mp4'', emb = 1\<rparr>] \<noteq> [] \<and>
   map path (order_videos ex_env [''a.mp4'', ''s.mp4'', ''b.mp4'', ''c.mp4''])
     = [''a.mp4'', ''c.mp4'', ''b.mp4''] \<and>
   mset (map path (order_videos ex_env [''a.mp4'', ''s.mp4'', ''b.mp4'', ''c.mp4'']))
     = mset [''a.mp4'', ''b.mp4'', ''c.mp4''] \<and>
   order_videos (ex_env\<lparr>open_image := (\<lambda>p. None)\<rparr>) [''a.mp4'', ''s.mp4'', ''b.mp4'', ''c.mp4'']
     = order_videos ex_env [''a.mp4'', ''s.mp4'', ''b.mp4'', ''c.mp4'']"
  using sequencer_greedy_tour [of ex_env "[''a.mp4'', ''s.mp4'', ''b.mp4'', ''c.mp4'']"
      "\<lparr>path = ''a.mp4'', emb = 0\<rparr>"
      "[\<lparr>path = ''b.mp4'', emb = 5\<rparr>, \<lparr>path = ''c.mp4'', emb = 1\<rparr>]"
      "ex_env\<lparr>open_image := (\<lambda>p. None)\<rparr>"]
  by (simp add: ex_embedding ex_sim order_videos_def greedy_step greedy_Nil pop_def Let_def)

section \<open>Classification by extension and the composed clips\<close>

lemma endswith1_suffix: "endswith1 s e \<longleftrightarrow> suffix e s"
proof
  assume "endswith1 s e"
  then have "drop (length s - length e) s = e" by (simp add: endswith1_def)
  then have "s = take (length s - length e) s @ e"
    by (metis append_take_drop_id)
  then show "suffix e s" by (metis suffixI)
next
  assume "suffix e s"
  then obtain ys where "s = ys @ e" by (auto simp: suffix_def)
  then show "endswith1 s e" by (simp add: endswith1_def)
qed

lemma endswith_iff: "endswith s es \<longleftrightarrow> (\<exists>e\<in>set es. suffix e s)"
  by (simp add: endswith_def list_ex_iff endswith1_suffix)

lemma video_image_exclusive:
  "endswith s video_exts \<Longrightarrow> \<not> endswith s image_exts"
proof
  assume v: "endswith s video_exts" and i: "endswith s image_exts"
  from v obtain a where a: "a \<in> set video_exts" "suffix a s" by (auto simp: endswith_iff)
  from i obtain b where b: "b \<in> set image_exts" "suffix b s" by (auto simp: endswith_iff)
  from a(2) b(2) have "suffix a b \<or> suffix b a" by (rule suffix_same_cases)
  with a(1) b(1) show False
    by (auto simp: video_exts_def image_exts_def suffix_to_prefix)
qed

lemma map_fst_compose_videos:
  "compose_videos env es = Inr cs \<Longrightarrow> map fst cs = map path es"
  by (induction es arbitrary: cs) (auto split: option.splits sum.splits)

lemma map_fst_compose_images:
  "compose_images env ims = Inr cs \<Longrightarrow> map fst cs = ims"
  by (induction ims arbitrary: cs) (auto split: sum.splits)

lemma map_fst_final_clips:
  "final_clips_of env ps = Inr fcs \<Longrightarrow>
   map fst fcs =
     map path (order_videos env (filter (\<lambda>p. endswith (lower p) video_exts) ps))
       @ filter (\<lambda>p. endswith (lower p) image_exts) ps"
  by (auto simp: final_clips_of_def Let_def map_fst_compose_videos map_fst_compose_images
      split: sum.splits)

lemma set_path_order_videos:
  "set (map path (order_videos env vs)) = {v \<in> set vs. video_embedding env v \<noteq> None}"
proof -
  have "set (map path (order_videos env vs)) = path ` set_mset (mset (order_videos env vs))"
    by simp
  also have "\<dots> = path ` set (embed_all env vs)"
    by (simp only: mset_order_videos set_mset_mset)
  also have "\<dots> = set (map path (embed_all env vs))" by simp
  also have "\<dots> = {v \<in> set vs. video_embedding env v \<noteq> None}"
    by (simp only: path_embed_all set_filter)
  finally show ?thesis .
qed

lemma build_montage_final_clips:
  "build_montage_for_paths env ps = Inr m \<Longrightarrow>
   final_clips_of env ps = Inr (final_clips m) \<and> final_clips m \<noteq> []"
  by (auto simp: build_montage_for_paths_def Let_def split: sum.splits if_splits option.splits)

lemma short_video_no_embedding:
  "open_video env p = Some c \<Longrightarrow> clip_duration c < MIN_CLIP_DURATION \<Longrightarrow>
   video_embedding env p = None"
  by (simp add: video_embedding_def)

text \<open>
  C7. A file with a video extension that opens as a clip shorter than 0.5 seconds is in
  no order the sequencer returns, and is the source of no clip of \<open>final_clips\<close>, the
  list that is concatenated into the artifact, whatever the embedding of its frames would
  have been.
\<close>

theorem short_video_excluded:
  "endswith (lower p) video_exts \<Longrightarrow> open_video env p = Some c \<Longrightarrow> clip_duration c < 1 / 2 \<Longrightarrow>
   p \<notin> set (map path (order_videos env videos)) \<and>
   (\<forall>fcs. final_clips_of env local_paths = Inr fcs \<longrightarrow> p \<notin> set (map fst fcs)) \<and>
   (\<forall>m. build_montage_for_paths env local_paths = Inr m \<longrightarrow> p \<notin> set (map fst (final_clips m)))"
proof -
  assume v: "endswith (lower p) video_exts" and o: "open_video env p = Some c"
    and d: "clip_duration c < 1 / 2"
  have none: "video_embedding env p = None"
    using o d by (simp add: short_video_no_embedding MIN_CLIP_DURATION_def)
  have ord: "\<And>vs. p \<notin> set (map path (order_videos env vs))"
    using none by (simp only: set_path_order_videos) simp
  have img: "p \<notin> set (filter (\<lambda>q. endswith (lower q) image_exts) local_paths)"
    using v video_image_exclusive by auto
  have fc: "\<And>fcs. final_clips_of env local_paths = Inr fcs \<Longrightarrow> p \<notin> set (map fst fcs)"
  proof -
    fix fcs assume "final_clips_of env local_paths = Inr fcs"
    then have "map fst fcs =
        map path (order_videos env (filter (\<lambda>q. endswith (lower q) video_exts) local_paths))
          @ filter (\<lambda>q. endswith (lower q) image_exts) local_paths"
      by (rule map_fst_final_clips)
    then show "p \<notin> set (map fst fcs)"
      using ord img by (simp only: set_append) blast
  qed
  show ?thesis
    using ord fc build_montage_final_clips by blast
qed


lemma ex_kinds:
  "endswith (lower ''a.mp4'') video_exts" "\<not> endswith (lower ''a.mp4'') image_exts"
  "endswith (lower ''s.mp4'') video_exts" "\<not> endswith (lower ''s.mp4'') image_exts"
  "\<not> endswith (lower ''i.png'') video_exts" "endswith (lower ''i.png'') image_exts"
  by (simp_all add: endswith_def endswith1_def lower_def lower_char_def video_exts_def image_exts_def)

lemma ex_fields:
  "open_video ex_env p = Some \<lparr>clip_w = 1920, clip_h = 1080,
      clip_duration = (if p = ''s.mp4'' then 3 / 10 else 2), clip_x1 = 0\<rparr>"
  "open_image ex_env p = Some (1000, 2000)"
  "write_videofile ex_env cs = Some (replicate (length cs) 0)"
  "embed_frames ex_env ''s.mp4'' = Some 0"
  by (simp_all add: ex_env_def)

lemma ex_montage:
  "build_montage_for_paths ex_env [''a.mp4'', ''s.mp4'', ''i.png''] =
     Inr \<lparr>out_path = ''montage_output.mp4'',
          final_clips =
            [(''a.mp4'', \<lparr>clip_w = 1080, clip_h = 1920, clip_duration = 2, clip_x1 = 1166\<rparr>),
             (''i.png'', \<lparr>clip_w = 960, clip_h = 1920, clip_duration = 3, clip_x1 = 0\<rparr>)],
          out_bytes = [0, 0]\<rparr>"
  by (simp add: build_montage_for_paths_def final_clips_of_def ex_kinds order_videos_def
      ex_embedding greedy_Nil resize_crop_video_eq resize_crop_image_eq Let_def
      dirname_def path_join_def ex_fields)

theorem short_video_excluded_witness:
  "endswith (lower ''s.mp4'') video_exts \<and>
   open_video ex_env ''s.mp4''
     = Some \<lparr>clip_w = 1920, clip_h = 1080, clip_duration = 3 / 10, clip_x1 = 0\<rparr> \<and>
   (3 / 10 :: real) < 1 / 2 \<and>
   embed_frames ex_env ''s.mp4'' = Some 0 \<and>
   ''s.mp4'' \<notin> set (map path (order_videos ex_env [''a.mp4'', ''s.mp4'', ''b.mp4'', ''c.mp4''])) \<and>
   (\<exists>m. build_montage_for_paths ex_env [''a.mp4'', ''s.mp4'', ''i.png''] = Inr m \<and>
        ''s.mp4'' \<notin> set (map fst (final_clips m)))"
  using short_video_excluded [of "''s.mp4''" ex_env
      "\<lparr>clip_w = 1920, clip_h = 1080, clip_duration = 3 / 10, clip_x1 = 0\<rparr>"
      "[''a.mp4'', ''s.mp4'', ''b.mp4'', ''c.mp4'']" "[''a.mp4'', ''s.mp4'', ''i.png'']"]
  by (simp add: ex_kinds ex_montage ex_fields)

section \<open>The effects of the service's helpers and loops\<close>

lemma extends_refl: "extends w w []"
  by (simp add: extends_def)

lemma extends_trans:
  "extends w w1 xs \<Longrightarrow> extends w1 w2 ys \<Longrightarrow> extends w w2 (xs @ ys)"
  by (auto simp: extends_def)

lemma extends_clock: "extends w (w\<lparr>clock := c\<rparr>) []"
  by (simp add: extends_def)

lemma attempt_extends:
  "attempt sv rq w = (b, w') \<Longrightarrow> extends w w' (if b then [rq] else [])"
  by (auto simp: attempt_def extends_def split: if_splits)

lemma list_incoming_extends:
  "sb_list_incoming_files sv w = (r, w') \<Longrightarrow>
   (case r of
      Inl e \<Rightarrow> e = DiscoveryError \<and> extends w w' []
    | Inr rows \<Rightarrow> rows = incoming_query (files_table w) \<and> extends w w' [Select])"
  by (auto simp: sb_list_incoming_files_def split: prod.splits bool.splits
      dest: attempt_extends)

lemma download_extends:
  "sb_storage_download_to sv p lp w = (r, w') \<Longrightarrow>
   (case r of
      Inl e \<Rightarrow> e = DownloadError \<and> extends w w' []
    | Inr u \<Rightarrow> extends w w' [Download p lp])"
  by (auto simp: sb_storage_download_to_def extends_clock split: prod.splits bool.splits if_splits
      dest: attempt_extends)

lemma upload_extends:
  "sb_storage_upload_from sv bs lp dp w = (r, w') \<Longrightarrow>
   (case r of
      Inl e \<Rightarrow> e = UploadError \<and> extends w w' []
    | Inr u \<Rightarrow> extends w w' [Upload lp dp])"
  by (auto simp: sb_storage_upload_from_def split: prod.splits bool.splits
      dest!: attempt_extends) (auto simp: extends_def)

lemma storage_move_extends:
  "storage_move sv f t w = (b, w') \<Longrightarrow> extends w w' (if b then [Move f t] else [])"
  by (auto simp: storage_move_def extends_clock split: option.splits prod.splits bool.splits
      dest!: attempt_extends) (auto simp: extends_def)

lemma sb_move_extends:
  "sb_storage_move sv f t w = (r, w') \<Longrightarrow>
   (case r of
      Inl e \<Rightarrow> e = MoveError \<and> extends w w' []
    | Inr u \<Rightarrow> (\<exists>d. extends w w' [Move f d]))"
proof -
  assume a: "sb_storage_move sv f t w = (r, w')"
  obtain b1 w1 where m1: "storage_move sv f t w = (b1, w1)" by (cases "storage_move sv f t w")
  have e1: "extends w w1 (if b1 then [Move f t] else [])" using m1 by (rule storage_move_extends)
  show ?thesis
  proof (cases b1)
    case True
    with a m1 e1 show ?thesis by (auto simp: sb_storage_move_def)
  next
    case False
    obtain base ext where sp: "splitext t = (base, ext)" by (cases "splitext t")
    let ?t2 = "base @ ''.'' @ strftime_usec sv (clock w1) @ ext"
    obtain b2 w2 where m2: "storage_move sv f ?t2 w1 = (b2, w2)"
      by (cases "storage_move sv f ?t2 w1")
    have e2: "extends w1 w2 (if b2 then [Move f ?t2] else [])"
      using m2 by (rule storage_move_extends)
    from e1 False have e1': "extends w w1 []" by simp
    have e12: "extends w w2 ([] @ (if b2 then [Move f ?t2] else []))"
      using e1' e2 by (rule extends_trans)
    from a m1 False sp m2 have r: "r = (if b2 then Inr () else Inl MoveError)" and w: "w' = w2"
      by (auto simp: sb_storage_move_def Let_def split: bool.splits)
    show ?thesis
    proof (cases b2)
      case True
      with r w e12 show ?thesis by auto
    next
      case False
      with r w e12 show ?thesis by auto
    qed
  qed
qed

lemma insert_extends:
  "sb_insert_output_row sv nm p sz w = (r, w') \<Longrightarrow>
   (case r of
      Inl e \<Rightarrow> e = InsertError \<and> extends w w' []
    | Inr u \<Rightarrow> extends w w' [Insert nm p sz])"
  by (auto simp: sb_insert_output_row_def split: prod.splits bool.splits
      dest!: attempt_extends) (auto simp: extends_def)


lemma download_all_extends:
  "download_all sv tmp rows w = (r, w') \<Longrightarrow>
   \<exists>k\<le>length rows.
     extends w w'
       (map (\<lambda>x. Download (file_path x) (path_join tmp (basename (file_path x)))) (take k rows)) \<and>
     (case r of
        Inl e \<Rightarrow> e = DownloadError \<and> k < length rows
      | Inr es \<Rightarrow> k = length rows \<and>
          es = map (\<lambda>x. \<lparr>row = x, local = path_join tmp (basename (file_path x))\<rparr>) rows)"
proof (induction rows arbitrary: w r w')
  case Nil
  then show ?case by (auto simp: extends_refl)
next
  case (Cons x xs)
  let ?lp = "path_join tmp (basename (file_path x))"
  let ?dl = "\<lambda>x. Download (file_path x) (path_join tmp (basename (file_path x)))"
  obtain r1 w1 where d1: "sb_storage_download_to sv (file_path x) ?lp w = (r1, w1)"
    by (cases "sb_storage_download_to sv (file_path x) ?lp w")
  note e1 = download_extends [OF d1]
  show ?case
  proof (cases r1)
    case (Inl e)
    with Cons.prems d1 have "r = Inl e" "w' = w1" by (auto simp: Let_def)
    with e1 Inl have "extends w w' (map ?dl (take 0 (x # xs)))" "e = DownloadError" by auto
    with \<open>r = Inl e\<close> show ?thesis by (intro exI [of _ 0]) auto
  next
    case (Inr u)
    obtain r2 w2 where d2: "download_all sv tmp xs w1 = (r2, w2)"
      by (cases "download_all sv tmp xs w1")
    from Cons.IH [OF d2] obtain k where k: "k \<le> length xs"
      "extends w1 w2 (map ?dl (take k xs))"
      "case r2 of Inl e \<Rightarrow> e = DownloadError \<and> k < length xs
         | Inr es \<Rightarrow> k = length xs \<and>
             es = map (\<lambda>x. \<lparr>row = x, local = path_join tmp (basename (file_path x))\<rparr>) xs"
      by blast
    from e1 Inr have "extends w w1 [?dl x]" by simp
    with k(2) have ext: "extends w w2 (map ?dl (take (Suc k) (x # xs)))"
      using extends_trans by fastforce
    from Cons.prems d1 Inr d2 have rw: "w' = w2"
      "r = (case r2 of Inl e \<Rightarrow> Inl e | Inr es \<Rightarrow> Inr (\<lparr>row = x, local = ?lp\<rparr> # es))"
      by (auto simp: Let_def split: sum.splits)
    show ?thesis
      using k(1) k(3) ext rw by (intro exI [of _ "Suc k"]) (auto split: sum.splits)
  qed
qed


lemma archive_all_extends:
  "archive_all sv ts es w = (r, w') \<Longrightarrow>
   \<exists>mvs. extends w w' mvs \<and> length mvs \<le> length es \<and>
     list_all2 (\<lambda>e m. \<exists>d. m = Move (file_path (row e)) d) (take (length mvs) es) mvs \<and>
     (case r of
        Inl e \<Rightarrow> e = MoveError \<and> length mvs < length es
      | Inr ds \<Rightarrow> length mvs = length es \<and>
          ds = map (\<lambda>e. ''archive/'' @ basename (file_path (row e)) @ ''.'' @ ts) es)"
proof (induction es arbitrary: w r w')
  case Nil
  then show ?case by (auto simp: extends_refl)
next
  case (Cons x xs)
  let ?dest = "\<lambda>e. ''archive/'' @ basename (file_path (row e)) @ ''.'' @ ts"
  let ?P = "\<lambda>e m. \<exists>d. m = Move (file_path (row e)) d"
  obtain r1 w1 where m1: "sb_storage_move sv (file_path (row x)) (?dest x) w = (r1, w1)"
    by (cases "sb_storage_move sv (file_path (row x)) (?dest x) w")
  note e1 = sb_move_extends [OF m1]
  show ?case
  proof (cases r1)
    case (Inl e)
    with Cons.prems m1 have "r = Inl e" "w' = w1" by (auto simp: Let_def)
    with e1 Inl have "extends w w' []" "e = MoveError" by auto
    with \<open>r = Inl e\<close> show ?thesis by (intro exI [of _ "[]"]) auto
  next
    case (Inr u)
    with e1 obtain d where d: "extends w w1 [Move (file_path (row x)) d]" by auto
    obtain r2 w2 where a2: "archive_all sv ts xs w1 = (r2, w2)"
      by (cases "archive_all sv ts xs w1")
    from Cons.IH [OF a2] obtain mvs where mvs: "extends w1 w2 mvs" "length mvs \<le> length xs"
      "list_all2 ?P (take (length mvs) xs) mvs"
      "case r2 of Inl e \<Rightarrow> e = MoveError \<and> length mvs < length xs
         | Inr ds \<Rightarrow> length mvs = length xs \<and> ds = map ?dest xs"
      by blast
    from d mvs(1) have ext: "extends w w2 (Move (file_path (row x)) d # mvs)"
      using extends_trans by fastforce
    from Cons.prems m1 Inr a2 have rw: "w' = w2"
      "r = (case r2 of Inl e \<Rightarrow> Inl e | Inr ds \<Rightarrow> Inr (?dest x # ds))"
      by (auto simp: Let_def split: sum.splits)
    show ?thesis
      using mvs(2,3,4) ext rw
      by (intro exI [of _ "Move (file_path (row x)) d # mvs"]) (auto split: sum.splits)
  qed
qed

lemma extends_set_table:
  "extends w w1 xs \<Longrightarrow> list_ex is_catalog_write xs \<Longrightarrow> extends w (w1\<lparr>files_table := t\<rparr>) xs"
  by (simp add: extends_def)

lemma update_rows_extends:
  "update_rows sv ps w = (r, w') \<Longrightarrow>
   \<exists>k\<le>length ps.
     extends w w' (map (\<lambda>(x, p). Update (row_id x) p) (take k ps)) \<and>
     (case r of Inl e \<Rightarrow> e = UpdateError \<and> k < length ps | Inr u \<Rightarrow> k = length ps)"
proof (induction ps arbitrary: w r w')
  case Nil
  then show ?case by (auto simp: extends_refl)
next
  case (Cons xp ps)
  obtain x p where xp: "xp = (x, p)" by (cases xp)
  let ?up = "\<lambda>(x, p). Update (row_id x) p"
  obtain b w1 where a1: "attempt sv (Update (row_id x) p) w = (b, w1)"
    by (cases "attempt sv (Update (row_id x) p) w")
  note e1 = attempt_extends [OF a1]
  show ?case
  proof (cases b)
    case False
    with Cons.prems a1 xp have "r = Inl UpdateError" "w' = w1" by auto
    with e1 False show ?thesis by (intro exI [of _ 0]) auto
  next
    case True
    let ?w1 = "w1\<lparr>files_table :=
                  map (\<lambda>y. if row_id y = row_id x
                            then y\<lparr>file_path := p, updated_at := now_iso sv w\<rparr> else y)
                    (files_table w1)\<rparr>"
    from e1 True have "extends w ?w1 [Update (row_id x) p]"
      by (intro extends_set_table) auto
    moreover from Cons.prems a1 xp True have rec: "update_rows sv ps ?w1 = (r, w')" by simp
    from Cons.IH [OF rec] obtain k where k: "k \<le> length ps"
      "extends ?w1 w' (map ?up (take k ps))"
      "case r of Inl e \<Rightarrow> e = UpdateError \<and> k < length ps | Inr u \<Rightarrow> k = length ps"
      by blast
    ultimately have "extends w w' (map ?up (take (Suc k) (xp # ps)))"
      using extends_trans xp by fastforce
    with k(1,3) show ?thesis
      by (intro exI [of _ "Suc k"]) (auto split: sum.splits)
  qed
qed

lemma moves_not_catalog:
  "list_all2 (\<lambda>e m. \<exists>d. m = Move (f e) d) es mvs \<Longrightarrow> \<not> list_ex is_catalog_write mvs"
  by (induction es mvs rule: list_all2_induct) auto

lemma moves_not_upload:
  "list_all2 (\<lambda>e m. \<exists>d. m = Move (f e) d) es mvs \<Longrightarrow> Upload l d \<notin> set mvs \<and> Select \<notin> set mvs"
  by (induction es mvs rule: list_all2_induct) auto

text \<open>The log of what follows the montage, by outcome.\<close>

lemma publish_and_archive_extends:
  assumes "publish_and_archive sv es m w = (r, w')"
  defines "ts \<equiv> strftime_sec sv (clock w)"
  defines "out_name \<equiv> ''montage_output_'' @ ts @ ''.mp4''"
  defines "up \<equiv> Upload (out_path m) (''outputs/'' @ out_name)"
  defines "dest \<equiv> (\<lambda>e. ''archive/'' @ basename (file_path (row e)) @ ''.'' @ ts)"
  defines "upd \<equiv> (\<lambda>e. Update (row_id (row e)) (dest e))"
  shows "\<exists>mvs k. length mvs \<le> length es \<and> k \<le> length es \<and>
     list_all2 (\<lambda>e m. \<exists>d. m = Move (file_path (row e)) d) (take (length mvs) es) mvs \<and>
     (case r of
        Raised e \<Rightarrow>
          (e = UploadError \<and> extends w w' []) \<or>
          (e = MoveError \<and> length mvs < length es \<and> extends w w' (up # mvs)) \<or>
          (e = UpdateError \<and> length mvs = length es \<and> k < length es \<and>
             extends w w' (up # mvs @ map upd (take k es))) \<or>
          (e = InsertError \<and> length mvs = length es \<and>
             extends w w' (up # mvs @ map upd es))
      | Returned \<Rightarrow>
          length mvs = length es \<and>
          (\<exists>w4. extends w w4
                  (up # mvs @ map upd es
                     @ [Insert out_name (''outputs/'' @ out_name) (length (out_bytes m))]) \<and>
                w' = w4\<lparr>LAST_RUN := Some (now_iso sv w4)\<rparr>))"
proof -
  let ?P = "\<lambda>e m. \<exists>d. m = Move (file_path (row e)) d"
  let ?remote = "''outputs/'' @ out_name"
  obtain r1 w1 where s1: "sb_storage_upload_from sv (out_bytes m) (out_path m) ?remote w = (r1, w1)"
    by (cases "sb_storage_upload_from sv (out_bytes m) (out_path m) ?remote w")
  note e1 = upload_extends [OF s1]
  show ?thesis
  proof (cases r1)
    case (Inl e)
    with assms(1) s1 have "r = Raised e" "w' = w1"
      by (auto simp: publish_and_archive_def Let_def ts_def out_name_def)
    with e1 Inl show ?thesis by (intro exI [of _ "[]"] exI [of _ 0]) auto
  next
    case u: (Inr u1)
    with e1 have x1: "extends w w1 [up]" by (simp add: up_def)
    obtain r2 w2 where s2: "archive_all sv ts es w1 = (r2, w2)"
      by (cases "archive_all sv ts es w1")
    from archive_all_extends [OF s2] obtain mvs where mvs: "extends w1 w2 mvs"
      "length mvs \<le> length es" "list_all2 ?P (take (length mvs) es) mvs"
      "case r2 of Inl e \<Rightarrow> e = MoveError \<and> length mvs < length es
         | Inr ds \<Rightarrow> length mvs = length es \<and> ds = map dest es"
      unfolding dest_def by blast
    from x1 mvs(1) have x2: "extends w w2 (up # mvs)"
      using extends_trans by fastforce
    show ?thesis
    proof (cases r2)
      case (Inl e)
      with assms(1) s1 u s2 have "r = Raised e" "w' = w2"
        by (auto simp: publish_and_archive_def Let_def ts_def out_name_def)
      with mvs Inl x2 show ?thesis by (intro exI [of _ mvs] exI [of _ 0]) auto
    next
      case a: (Inr ds)
      with mvs(4) have len: "length mvs = length es" and ds: "ds = map dest es" by auto
      obtain r3 w3 where s3: "sb_update_file_paths sv (map row es) ds w2 = (r3, w3)"
        by (cases "sb_update_file_paths sv (map row es) ds w2")
      then have s3': "update_rows sv (zip (map row es) ds) w2 = (r3, w3)"
        by (simp add: sb_update_file_paths_def)
      have whole: "map (\<lambda>(x, p). Update (row_id x) p) (zip (map row es) (map dest es))
          = map upd es"
        by (induction es) (simp_all add: upd_def)
      have zipmap: "\<And>k. map (\<lambda>(x, p). Update (row_id x) p) (take k (zip (map row es) ds))
          = map upd (take k es)"
        by (simp only: take_map [symmetric] whole ds)
      have lenz: "length (zip (map row es) ds) = length es" by (simp add: ds)
      from update_rows_extends [OF s3'] obtain k where k0:
        "k \<le> length (zip (map row es) ds)"
        "extends w2 w3 (map (\<lambda>(x, p). Update (row_id x) p) (take k (zip (map row es) ds)))"
        "case r3 of Inl e \<Rightarrow> e = UpdateError \<and> k < length (zip (map row es) ds)
           | Inr u \<Rightarrow> k = length (zip (map row es) ds)"
        by blast
      have k: "k \<le> length es" "extends w2 w3 (map upd (take k es))"
        "case r3 of Inl e \<Rightarrow> e = UpdateError \<and> k < length es | Inr u \<Rightarrow> k = length es"
        using k0 by (simp_all only: zipmap lenz)
      from x2 k(2) have x3: "extends w w3 (up # mvs @ map upd (take k es))"
        using extends_trans by fastforce
      show ?thesis
      proof (cases r3)
        case (Inl e)
        with assms(1) s1 u s2 a s3 have "r = Raised e" "w' = w3"
          by (auto simp: publish_and_archive_def Let_def ts_def out_name_def)
        with mvs(2,3) len k Inl x3 show ?thesis by (intro exI [of _ mvs] exI [of _ k]) auto
      next
        case b: (Inr u3)
        with k(3) have kk: "k = length es" by simp
        with x3 have x3': "extends w w3 (up # mvs @ map upd es)" by simp
        obtain r4 w4 where s4: "sb_insert_output_row sv out_name ?remote (length (out_bytes m)) w3 = (r4, w4)"
          by (cases "sb_insert_output_row sv out_name ?remote (length (out_bytes m)) w3")
        note e4 = insert_extends [OF s4]
        show ?thesis
        proof (cases r4)
          case (Inl e)
          with assms(1) s1 u s2 a s3 b s4 have "r = Raised e" "w' = w4"
            by (auto simp: publish_and_archive_def Let_def ts_def out_name_def)
          moreover from e4 Inl x3' have "e = InsertError" "extends w w4 (up # mvs @ map upd es)"
            using extends_trans by fastforce+
          ultimately show ?thesis
            using mvs(2,3) len k(1) by (intro exI [of _ mvs] exI [of _ k]) auto
        next
          case c: (Inr u4)
          with assms(1) s1 u s2 a s3 b s4 have rw: "r = Returned"
            "w' = w4\<lparr>LAST_RUN := Some (now_iso sv w4)\<rparr>"
            by (auto simp: publish_and_archive_def Let_def ts_def out_name_def)
          from e4 c have "extends w3 w4 [Insert out_name ?remote (length (out_bytes m))]"
            by simp
          with x3' have "extends w w4 ((up # mvs @ map upd es)
              @ [Insert out_name ?remote (length (out_bytes m))])"
            by (rule extends_trans)
          with rw mvs(2,3) len k(1) show ?thesis
            by (intro exI [of _ mvs] exI [of _ k]) auto
        qed
      qed
    qed
  qed
qed

text \<open>The body of the \<open>try\<close>, by outcome.\<close>

lemma attempt_clock: "attempt sv rq w = (b, w') \<Longrightarrow> clock w' = Suc (clock w)"
  by (auto simp: attempt_def split: if_splits)

lemma list_incoming_clock: "sb_list_incoming_files sv w = (r, w') \<Longrightarrow> clock w' = Suc (clock w)"
  by (auto simp: sb_list_incoming_files_def split: prod.splits bool.splits dest: attempt_clock)

lemma pipeline_body_cases:
  assumes "pipeline_body env sv w = (r, w')"
  defines "rows \<equiv> incoming_query (files_table w)"
  defines "tmp \<equiv> job_dir sv w"
  shows "(r = Raised DiscoveryError \<and> extends w w' []) \<or>
    (r = Returned \<and> rows = [] \<and> extends w w' [Select]) \<or>
    (rows \<noteq> [] \<and>
     ((r = Raised DownloadError \<and>
       (\<exists>k<length rows. extends w w' (Select # map (download_rq tmp) (take k rows)))) \<or>
      (\<exists>w2. extends w w2 (Select # map (download_rq tmp) rows) \<and>
            (case build_montage_for_paths env (map (local_of tmp) rows) of
               Inl e \<Rightarrow> r = Raised e \<and> w' = w2
             | Inr m \<Rightarrow>
                 publish_and_archive sv (map (\<lambda>x. \<lparr>row = x, local = local_of tmp x\<rparr>) rows)
                   m w2 = (r, w')))))"
proof -
  obtain r1 w1 where s1: "sb_list_incoming_files sv w = (r1, w1)"
    by (cases "sb_list_incoming_files sv w")
  note e1 = list_incoming_extends [OF s1]
  have tmp: "path_join (WORK_DIR sv) (job_name sv (clock w1)) = tmp"
    using list_incoming_clock [OF s1] by (simp add: tmp_def job_dir_def)
  show ?thesis
  proof (cases r1)
    case (Inl e)
    with assms(1) s1 e1 show ?thesis by (auto simp: pipeline_body_def)
  next
    case (Inr rs)
    with e1 have rs: "rs = rows" and x1: "extends w w1 [Select]" by (auto simp: rows_def)
    show ?thesis
    proof (cases "rows = []")
      case True
      with assms(1) s1 Inr rs x1 show ?thesis by (auto simp: pipeline_body_def)
    next
      case False
      obtain r2 w2 where s2: "download_all sv tmp rows w1 = (r2, w2)"
        by (cases "download_all sv tmp rows w1")
      from download_all_extends [OF s2] obtain k where k: "k \<le> length rows"
        "extends w1 w2 (map (download_rq tmp) (take k rows))"
        "case r2 of Inl e \<Rightarrow> e = DownloadError \<and> k < length rows
           | Inr es \<Rightarrow> k = length rows \<and> es = map (\<lambda>x. \<lparr>row = x, local = local_of tmp x\<rparr>) rows"
        unfolding download_rq_def [abs_def] local_of_def [abs_def] by blast
      from x1 k(2) have x2: "extends w w2 (Select # map (download_rq tmp) (take k rows))"
        using extends_trans by fastforce
      show ?thesis
      proof (cases r2)
        case (Inl e)
        with assms(1) s1 Inr rs False s2 have "r = Raised e" "w' = w2"
          by (auto simp: pipeline_body_def Let_def tmp)
        with Inl k(3) x2
        have "r = Raised DownloadError \<and>
            (\<exists>k<length rows. extends w w' (Select # map (download_rq tmp) (take k rows)))"
          by auto
        with False show ?thesis by blast
      next
        case es: (Inr es)
        with k(3) have kk: "k = length rows"
          and es_eq: "es = map (\<lambda>x. \<lparr>row = x, local = local_of tmp x\<rparr>) rows" by auto
        from x2 kk have x2': "extends w w2 (Select # map (download_rq tmp) rows)" by simp
        have loc: "map local es = map (local_of tmp) rows"
          by (rule nth_equalityI) (simp_all add: es_eq)
        from assms(1) s1 Inr rs False s2 es
        have body: "(case build_montage_for_paths env (map local es) of
                       Inl e \<Rightarrow> (Raised e, w2)
                     | Inr m \<Rightarrow> publish_and_archive sv es m w2) = (r, w')"
          by (auto simp: pipeline_body_def Let_def tmp)
        have "case build_montage_for_paths env (map (local_of tmp) rows) of
                 Inl e \<Rightarrow> r = Raised e \<and> w' = w2
               | Inr m \<Rightarrow> publish_and_archive sv
                   (map (\<lambda>x. \<lparr>row = x, local = local_of tmp x\<rparr>) rows) m w2 = (r, w')"
        proof -
          from body have "(case build_montage_for_paths env (map (local_of tmp) rows) of
                       Inl e \<Rightarrow> (Raised e, w2)
                     | Inr m \<Rightarrow> publish_and_archive sv es m w2) = (r, w')"
            by (simp only: loc)
          then show ?thesis by (auto simp: es_eq split: sum.splits)
        qed
        with x2' False show ?thesis by blast
      qed
    qed
  qed
qed

lemma run_build_pipeline_body:
  "\<not> IS_CREATING w \<Longrightarrow> run_build_pipeline env sv w = (r, w') \<Longrightarrow>
   \<exists>w2. pipeline_body env sv (w\<lparr>IS_CREATING := True, STARTED_AT := Some (now_iso sv w)\<rparr>) = (r, w2)
        \<and> w' = w2\<lparr>IS_CREATING := False\<rparr>"
  by (auto simp: run_build_pipeline_def Let_def split: prod.splits)

text \<open>The trace of what follows the montage.\<close>

lemma is_move_of_not_catalog:
  "list_all2 is_move_of xs mvs \<Longrightarrow> \<not> list_ex is_catalog_write mvs"
  by (induction xs mvs rule: list_all2_induct) (auto simp: is_move_of_def)

lemma publish_trace:
  assumes pa: "publish_and_archive sv (map (\<lambda>x. \<lparr>row = x, local = local_of tmp x\<rparr>) rows) m w2 = (r, w')"
    and ne: "rows \<noteq> []"
    and x2: "extends w w2 (Select # map (download_rq tmp) rows)"
  shows "\<exists>xs. trace_of rows tmp (Inr m) (strftime_sec sv (clock w2)) r xs \<and>
     log w' = log w @ xs \<and>
     IS_CREATING w' = IS_CREATING w \<and> STARTED_AT w' = STARTED_AT w \<and>
     (\<not> list_ex is_catalog_write xs \<longrightarrow> files_table w' = files_table w) \<and>
     (\<not> list_ex is_storage_write xs \<longrightarrow> bucket w' = bucket w) \<and>
     LAST_RUN w' = (if r = Returned then Some (isoformat sv (clock w')) else LAST_RUN w)"
proof -
  let ?ts = "strftime_sec sv (clock w2)"
  let ?es = "map (\<lambda>x. \<lparr>row = x, local = local_of tmp x\<rparr>) rows"
  let ?dls = "Select # map (download_rq tmp) rows"
  have up: "Upload (out_path m) (''outputs/'' @ ''montage_output_'' @ ?ts @ ''.mp4'') = upload_rq m ?ts"
    by (simp add: upload_rq_def out_name_of_def)
  have ins: "Insert (''montage_output_'' @ ?ts @ ''.mp4'')
        (''outputs/'' @ ''montage_output_'' @ ?ts @ ''.mp4'') (length (out_bytes m)) = insert_rq m ?ts"
    by (simp add: insert_rq_def out_name_of_def)
  have upd': "map (\<lambda>e. Update (row_id (row e))
                 (''archive/'' @ basename (file_path (row e)) @ ''.'' @ ?ts)) ?es
        = map (update_rq ?ts) rows"
    by (rule nth_equalityI) (simp_all add: update_rq_def archive_dest_def)
  have upd: "\<And>k. map (\<lambda>e. Update (row_id (row e))
                 (''archive/'' @ basename (file_path (row e)) @ ''.'' @ ?ts)) (take k ?es)
        = map (update_rq ?ts) (take k rows)"
    by (simp only: take_map [symmetric] upd')
  have mv: "\<And>mvs. list_all2 (\<lambda>e m. \<exists>d. m = Move (file_path (row e)) d) (take (length mvs) ?es) mvs
        = list_all2 is_move_of (take (length mvs) rows) mvs"
    by (simp add: take_map list_all2_map1 is_move_of_def [abs_def])
  from publish_and_archive_extends [OF pa] obtain mvs k where
    a: "length mvs \<le> length rows" "k \<le> length rows"
      "list_all2 is_move_of (take (length mvs) rows) mvs"
    and c: "case r of
        Raised e \<Rightarrow>
          (e = UploadError \<and> extends w2 w' []) \<or>
          (e = MoveError \<and> length mvs < length rows \<and> extends w2 w' (upload_rq m ?ts # mvs)) \<or>
          (e = UpdateError \<and> length mvs = length rows \<and> k < length rows \<and>
             extends w2 w' (upload_rq m ?ts # mvs @ map (update_rq ?ts) (take k rows))) \<or>
          (e = InsertError \<and> length mvs = length rows \<and>
             extends w2 w' (upload_rq m ?ts # mvs @ map (update_rq ?ts) rows))
      | Returned \<Rightarrow>
          length mvs = length rows \<and>
          (\<exists>w4. extends w2 w4
                  (upload_rq m ?ts # mvs @ map (update_rq ?ts) rows @ [insert_rq m ?ts]) \<and>
                w' = w4\<lparr>LAST_RUN := Some (now_iso sv w4)\<rparr>)"
    unfolding up ins upd upd' mv length_map by blast
  have ncw: "\<not> list_ex is_catalog_write ?dls" "\<not> list_ex is_storage_write ?dls"
    by (simp_all add: list_ex_iff download_rq_def image_iff)
  show ?thesis
  proof (cases r)
    case Returned
    with c obtain w4 where len: "length mvs = length rows"
      and x4: "extends w2 w4 (upload_rq m ?ts # mvs @ map (update_rq ?ts) rows @ [insert_rq m ?ts])"
      and w': "w' = w4\<lparr>LAST_RUN := Some (now_iso sv w4)\<rparr>" by auto
    let ?xs = "?dls @ upload_rq m ?ts # mvs @ map (update_rq ?ts) rows @ [insert_rq m ?ts]"
    from x2 x4 have x: "extends w w4 ?xs" by (rule extends_trans)
    from a(3) len have "list_all2 is_move_of rows mvs" by simp
    with ne have "trace_of rows tmp (Inr m) ?ts Returned ?xs"
      using at_end [of rows "Inr m" m mvs tmp ?ts] by simp
    moreover have "list_ex is_catalog_write ?xs" "list_ex is_storage_write ?xs"
      by (simp_all add: insert_rq_def upload_rq_def)
    ultimately show ?thesis
      using x Returned w' by (intro exI [of _ ?xs]) (simp add: extends_def now_iso_def)
  next
    case (Raised e)
    with c consider
        (u) "e = UploadError" "extends w2 w' []"
      | (m) "e = MoveError" "length mvs < length rows" "extends w2 w' (upload_rq m ?ts # mvs)"
      | (p) "e = UpdateError" "length mvs = length rows" "k < length rows"
            "extends w2 w' (upload_rq m ?ts # mvs @ map (update_rq ?ts) (take k rows))"
      | (i) "e = InsertError" "length mvs = length rows"
            "extends w2 w' (upload_rq m ?ts # mvs @ map (update_rq ?ts) rows)"
      by auto
    then show ?thesis
    proof cases
      case u
      from x2 u(2) have x: "extends w w' (?dls @ [])" by (rule extends_trans)
      have "trace_of rows tmp (Inr m) ?ts (Raised UploadError) ?dls"
        using ne by (intro at_upload [of rows "Inr m" m]) simp_all
      with x u(1) Raised ncw show ?thesis
        by (intro exI [of _ ?dls]) (simp add: extends_def)
    next
      case m
      let ?xs = "?dls @ upload_rq m ?ts # mvs"
      from x2 m(3) have x: "extends w w' ?xs" by (rule extends_trans)
      have "trace_of rows tmp (Inr m) ?ts (Raised MoveError) ?xs"
        using ne m(2) a(3) at_move [of rows "Inr m" m mvs tmp ?ts] by simp
      moreover have "list_ex is_storage_write ?xs" by (simp add: upload_rq_def)
      moreover have "\<not> list_ex is_catalog_write ?xs"
        using is_move_of_not_catalog [OF a(3)] ncw(1)
        by (simp add: upload_rq_def)
      ultimately show ?thesis
        using x m(1) Raised by (intro exI [of _ ?xs]) (simp add: extends_def)
    next
      case p
      let ?xs = "?dls @ upload_rq m ?ts # mvs @ map (update_rq ?ts) (take k rows)"
      from x2 p(4) have x: "extends w w' ?xs" by (rule extends_trans)
      from a(3) p(2) have "list_all2 is_move_of rows mvs" by simp
      then have "trace_of rows tmp (Inr m) ?ts (Raised UpdateError) ?xs"
        using ne p(3) at_update [of rows "Inr m" m mvs k tmp ?ts] by simp
      moreover have "list_ex is_storage_write ?xs" by (simp add: upload_rq_def)
      ultimately show ?thesis
        using x p(1) Raised by (intro exI [of _ ?xs]) (auto simp: extends_def)
    next
      case i
      let ?xs = "?dls @ upload_rq m ?ts # mvs @ map (update_rq ?ts) rows"
      from x2 i(3) have x: "extends w w' ?xs" by (rule extends_trans)
      from a(3) i(2) have "list_all2 is_move_of rows mvs" by simp
      then have "trace_of rows tmp (Inr m) ?ts (Raised InsertError) ?xs"
        using ne at_insert [of rows "Inr m" m mvs tmp ?ts] by simp
      moreover have "list_ex is_storage_write ?xs" by (simp add: upload_rq_def)
      moreover have "list_ex is_catalog_write ?xs"
        using ne by (cases rows) (simp_all add: update_rq_def)
      ultimately show ?thesis
        using x i(1) Raised by (intro exI [of _ ?xs]) (simp add: extends_def)
    qed
  qed
qed

text \<open>Every run of the build thread that gets past the flag has one of the traces.\<close>

lemma run_trace:
  assumes idle: "\<not> IS_CREATING w" and run: "run_build_pipeline env sv w = (r, w')"
  defines "rows \<equiv> incoming_query (files_table w)"
  defines "tmp \<equiv> job_dir sv w"
  shows "\<exists>ts xs.
     trace_of rows tmp (build_montage_for_paths env (map (local_of tmp) rows)) ts r xs \<and>
     log w' = log w @ xs \<and> \<not> IS_CREATING w' \<and> STARTED_AT w' = Some (now_iso sv w) \<and>
     (\<not> list_ex is_catalog_write xs \<longrightarrow> files_table w' = files_table w) \<and>
     (\<not> list_ex is_storage_write xs \<longrightarrow> bucket w' = bucket w) \<and>
     LAST_RUN w' = (if r = Returned \<and> rows \<noteq> [] then Some (isoformat sv (clock w')) else LAST_RUN w)"
proof -
  let ?T = ?thesis
  let ?w0 = "w\<lparr>IS_CREATING := True, STARTED_AT := Some (now_iso sv w)\<rparr>"
  let ?bm = "build_montage_for_paths env (map (local_of tmp) rows)"
  from run_build_pipeline_body [OF idle run] obtain wb where
    body: "pipeline_body env sv ?w0 = (r, wb)" and w': "w' = wb\<lparr>IS_CREATING := False\<rparr>"
    by blast
  have rows0: "incoming_query (files_table ?w0) = rows" "job_dir sv ?w0 = tmp"
    by (simp_all add: rows_def tmp_def job_dir_def)
  have plain: "\<And>xs ts. extends ?w0 wb xs \<Longrightarrow> trace_of rows tmp ?bm ts r xs \<Longrightarrow>
      \<not> (r = Returned \<and> rows \<noteq> []) \<Longrightarrow> ?T"
  proof -
    fix xs ts
    assume x: "extends ?w0 wb xs" and t: "trace_of rows tmp ?bm ts r xs"
      and n: "\<not> (r = Returned \<and> rows \<noteq> [])"
    from x w' n have "log w' = log w @ xs \<and> \<not> IS_CREATING w' \<and> STARTED_AT w' = Some (now_iso sv w) \<and>
       (\<not> list_ex is_catalog_write xs \<longrightarrow> files_table w' = files_table w) \<and>
       (\<not> list_ex is_storage_write xs \<longrightarrow> bucket w' = bucket w) \<and>
       LAST_RUN w' = (if r = Returned \<and> rows \<noteq> [] then Some (isoformat sv (clock w')) else LAST_RUN w)"
      by (auto simp: extends_def)
    with t show ?T by blast
  qed
  from pipeline_body_cases [OF body] rows0 consider
      (disc) "r = Raised DiscoveryError" "extends ?w0 wb []"
    | (noop) "r = Returned" "rows = []" "extends ?w0 wb [Select]"
    | (dl) k where "rows \<noteq> []" "r = Raised DownloadError" "k < length rows"
        "extends ?w0 wb (Select # map (download_rq tmp) (take k rows))"
    | (bm) w2 where "rows \<noteq> []" "extends ?w0 w2 (Select # map (download_rq tmp) rows)"
        "case ?bm of
           Inl e \<Rightarrow> r = Raised e \<and> wb = w2
         | Inr m \<Rightarrow> publish_and_archive sv (map (\<lambda>x. \<lparr>row = x, local = local_of tmp x\<rparr>) rows)
                     m w2 = (r, wb)"
    by (simp only:) blast
  then show ?thesis
  proof cases
    case disc
    show ?thesis
      using disc(2) at_discovery [of rows tmp ?bm "[]"] disc(1)
      by (intro plain [of "[]" "[]"]) simp_all
  next
    case noop
    show ?thesis
      using noop at_nothing [of rows tmp ?bm "[]"]
      by (intro plain [of "[Select]" "[]"]) simp_all
  next
    case dl
    show ?thesis
      using dl at_download [of k rows tmp ?bm "[]"]
      by (intro plain [of "Select # map (download_rq tmp) (take k rows)" "[]"]) simp_all
  next
    case bm
    show ?thesis
    proof (cases ?bm)
      case (Inl e)
      with bm(3) have r: "r = Raised e" and wb: "wb = w2" by simp_all
      show ?thesis
        using bm(1,2) Inl r wb at_montage [of rows ?bm e tmp "[]"]
        by (intro plain [of "Select # map (download_rq tmp) rows" "[]"]) simp_all
    next
      case (Inr m)
      with bm(3) have pa: "publish_and_archive sv
          (map (\<lambda>x. \<lparr>row = x, local = local_of tmp x\<rparr>) rows) m w2 = (r, wb)" by simp
      from publish_trace [OF pa bm(1) bm(2)] obtain xs where
        t: "trace_of rows tmp (Inr m) (strftime_sec sv (clock w2)) r xs"
        and f: "log wb = log ?w0 @ xs" "IS_CREATING wb = IS_CREATING ?w0"
          "STARTED_AT wb = STARTED_AT ?w0"
          "\<not> list_ex is_catalog_write xs \<longrightarrow> files_table wb = files_table ?w0"
          "\<not> list_ex is_storage_write xs \<longrightarrow> bucket wb = bucket ?w0"
          "LAST_RUN wb = (if r = Returned then Some (isoformat sv (clock wb)) else LAST_RUN ?w0)"
        by blast
      from t Inr have t': "trace_of rows tmp ?bm (strftime_sec sv (clock w2)) r xs" by simp
      from f w' bm(1) have "log w' = log w @ xs \<and> \<not> IS_CREATING w' \<and>
         STARTED_AT w' = Some (now_iso sv w) \<and>
         (\<not> list_ex is_catalog_write xs \<longrightarrow> files_table w' = files_table w) \<and>
         (\<not> list_ex is_storage_write xs \<longrightarrow> bucket w' = bucket w) \<and>
         LAST_RUN w' = (if r = Returned \<and> rows \<noteq> [] then Some (isoformat sv (clock w')) else LAST_RUN w)"
        by simp
      with t' show ?thesis by blast
    qed
  qed
qed

section \<open>Where the archived objects and rows end up\<close>

lemma attempt_data:
  "attempt sv rq w = (b, w') \<Longrightarrow>
   bucket w' = bucket w \<and> files_table w' = files_table w \<and>
   log w' = log w @ (if b then [rq] else [])"
  by (auto simp: attempt_def split: if_splits)

lemma storage_move_bucket:
  "storage_move sv f t w = (b, w') \<Longrightarrow>
   files_table w' = files_table w \<and>
   (if b then bucket w f \<noteq> None \<and> bucket w' = ((bucket w)(f := None))(t := bucket w f) \<and>
             log w' = log w @ [Move f t]
    else bucket w' = bucket w \<and> log w' = log w)"
  by (auto simp: storage_move_def split: option.splits prod.splits bool.splits
      dest!: attempt_data)

lemma sb_move_bucket:
  assumes "sb_storage_move sv f t w = (r, w')"
  shows "files_table w' = files_table w \<and>
    (case r of
       Inl e \<Rightarrow> bucket w' = bucket w \<and> log w' = log w
     | Inr u \<Rightarrow>
         (\<exists>d. (d = t \<or> (\<exists>v. d = fallback_dest t v)) \<and> bucket w f \<noteq> None \<and>
              bucket w' = ((bucket w)(f := None))(d := bucket w f) \<and>
              log w' = log w @ [Move f d]))"
proof -
  obtain b1 w1 where m1: "storage_move sv f t w = (b1, w1)" by (cases "storage_move sv f t w")
  note s1 = storage_move_bucket [OF m1]
  show ?thesis
  proof (cases b1)
    case True
    with assms m1 have "r = Inr ()" "w' = w1" by (simp_all add: sb_storage_move_def)
    with s1 True show ?thesis by auto
  next
    case False
    let ?t2 = "fallback_dest t (strftime_usec sv (clock w1))"
    obtain b2 w2 where m2: "storage_move sv f ?t2 w1 = (b2, w2)"
      by (cases "storage_move sv f ?t2 w1")
    note s2 = storage_move_bucket [OF m2]
    from assms m1 False m2 have r: "r = (if b2 then Inr () else Inl MoveError)" and w: "w' = w2"
      by (auto simp: sb_storage_move_def Let_def fallback_dest_def split: prod.splits bool.splits)
    show ?thesis
    proof (cases b2)
      case True
      with r w s1 s2 False show ?thesis by auto
    next
      case f2: False
      with r w s1 s2 False show ?thesis by auto
    qed
  qed
qed

lemma takeWhile_stop: "\<not> P y \<Longrightarrow> length (takeWhile P (xs @ y # ys)) \<le> length xs"
  by (induction xs) auto

lemma takeWhile_shorter: "x \<in> set xs \<Longrightarrow> \<not> P x \<Longrightarrow> length (takeWhile P xs) < length xs"
  by (induction xs) auto

lemma basename_short:
  "length (basename (q @ CHR ''/'' # rest)) \<le> length rest"
  using takeWhile_stop [of "\<lambda>c. c \<noteq> CHR ''/''" "CHR ''/''" "rev rest" "rev q"]
  by (simp add: basename_def)

lemma take_keep_front:
  assumes "n \<le> length rest"
  shows "take (length (q @ c # rest) - n) (q @ c # rest) = (q @ [c]) @ take (length rest - n) rest"
proof -
  have "length (q @ c # rest) - n = length q + (1 + (length rest - n))"
    using assms by simp
  then have "take (length (q @ c # rest) - n) (q @ c # rest)
      = take (length q + (1 + (length rest - n))) (q @ c # rest)"
    by (rule arg_cong)
  also have "\<dots> = q @ c # take (length rest - n) rest" by simp
  finally show ?thesis by simp
qed

lemma splitext_keeps_dir:
  "\<exists>k. fst (splitext (q @ CHR ''/'' # rest)) = (q @ [CHR ''/'']) @ take k rest"
proof -
  let ?p = "q @ CHR ''/'' # rest"
  let ?b = "basename ?p"
  let ?ext = "CHR ''.'' # rev (takeWhile (\<lambda>c. c \<noteq> CHR ''.'') (rev ?b))"
  show ?thesis
  proof (cases "CHR ''.'' \<in> set ?b \<and> \<not> list_all (\<lambda>c. c = CHR ''.'') (take (length ?b - length ?ext) ?b)")
    case False
    then have "fst (splitext ?p) = ?p" by (auto simp: splitext_def Let_def)
    then have "fst (splitext ?p) = (q @ [CHR ''/'']) @ take (length rest) rest" by simp
    then show ?thesis by blast
  next
    case True
    then have dot: "CHR ''.'' \<in> set (rev ?b)" by simp
    have "length (takeWhile (\<lambda>c. c \<noteq> CHR ''.'') (rev ?b)) < length (rev ?b)"
      using dot by (rule takeWhile_shorter) simp
    then have le: "length ?ext \<le> length ?b" by simp
    from True have "fst (splitext ?p) = take (length ?p - length ?ext) ?p"
      by (auto simp: splitext_def Let_def)
    moreover have "length ?ext \<le> length rest" using le basename_short [of q rest] by linarith
    then have "take (length ?p - length ?ext) ?p
        = (q @ [CHR ''/'']) @ take (length rest - length ?ext) rest"
      by (rule take_keep_front)
    ultimately show ?thesis by metis
  qed
qed

lemma fallback_archive:
  "prefix ''archive/'' (fallback_dest (''archive/'' @ rest) v)"
proof -
  from splitext_keeps_dir [of "''archive''" rest] obtain k where
    "fst (splitext (''archive/'' @ rest)) = ''archive/'' @ take k rest" by auto
  then show ?thesis by (simp add: fallback_dest_def)
qed

lemma new_log_append: "log w' = log w @ xs \<Longrightarrow> new_log w w' = xs"
  by (simp add: new_log_def)

lemma downloads_no_writes:
  "\<not> list_ex is_catalog_write (Select # map (download_rq tmp) rows)"
  "\<not> list_ex is_storage_write (Select # map (download_rq tmp) rows)"
  by (simp_all add: list_ex_iff download_rq_def image_iff)

text \<open>The archive loop: what it leaves in the bucket and in the log.\<close>

lemma incoming_not_archive: "prefix ''incoming/'' p \<Longrightarrow> \<not> prefix ''archive/'' p"
  by (auto simp: prefix_def)

lemma archive_dest_archive: "prefix ''archive/'' (archive_dest ts x)"
  by (simp add: archive_dest_def)

lemma fallback_archive_dest: "prefix ''archive/'' (fallback_dest (archive_dest ts x) v)"
  unfolding archive_dest_def by (rule fallback_archive)

lemma archived_log_mono: "archived w xs ts x \<Longrightarrow> set xs \<subseteq> set ys \<Longrightarrow> archived w ys ts x"
  unfolding archived_def by blast

lemma archived_bucket: "archived w xs ts x \<Longrightarrow> bucket w' = bucket w \<Longrightarrow> archived w' xs ts x"
  unfolding archived_def by simp

lemma archivedI:
  "bucket w (file_path x) = None \<Longrightarrow> d = archive_dest ts x \<or> (\<exists>v. d = fallback_dest (archive_dest ts x) v) \<Longrightarrow>
   Move (file_path x) d \<in> set xs \<Longrightarrow> bucket w d \<noteq> None \<Longrightarrow> archived w xs ts x"
  unfolding archived_def by blast

lemma archive_all_state:
  assumes "archive_all sv ts es w = (r, w')"
    and "\<forall>e\<in>set es. prefix ''incoming/'' (file_path (row e))"
  shows "files_table w' = files_table w \<and>
    (\<forall>p. prefix ''archive/'' p \<longrightarrow> bucket w p \<noteq> None \<longrightarrow> bucket w' p \<noteq> None) \<and>
    (\<forall>p. prefix ''incoming/'' p \<longrightarrow> bucket w p = None \<longrightarrow> bucket w' p = None) \<and>
    (\<exists>xs. log w' = log w @ xs \<and>
       (\<forall>ds. r = Inr ds \<longrightarrow> (\<forall>e\<in>set es. archived w' xs ts (row e))))"
  using assms
proof (induction es arbitrary: w r w')
  case Nil
  then show ?case by simp
next
  case (Cons e es)
  let ?f = "file_path (row e)"
  let ?t = "archive_dest ts (row e)"
  obtain r1 w1 where
    m0: "sb_storage_move sv ?f (''archive/'' @ basename ?f @ ''.'' @ ts) w = (r1, w1)"
    by (cases "sb_storage_move sv ?f (''archive/'' @ basename ?f @ ''.'' @ ts) w")
  then have m1: "sb_storage_move sv ?f ?t w = (r1, w1)" by (simp add: archive_dest_def)
  note s1 = sb_move_bucket [OF m1]
  from Cons.prems(2) have inc: "prefix ''incoming/'' ?f"
    and incs: "\<forall>e\<in>set es. prefix ''incoming/'' (file_path (row e))" by simp_all
  show ?case
  proof (cases r1)
    case (Inl err)
    with Cons.prems(1) m0 have rw: "r = Inl err" "w' = w1" by (auto simp: Let_def)
    from s1 Inl have "files_table w1 = files_table w" "bucket w1 = bucket w" "log w1 = log w"
      by simp_all
    then show ?thesis unfolding rw by simp
  next
    case (Inr u)
    from s1 have t1: "files_table w1 = files_table w" by (rule conjunct1)
    from s1 Inr have "\<exists>d. (d = ?t \<or> (\<exists>v. d = fallback_dest ?t v)) \<and> bucket w ?f \<noteq> None \<and>
              bucket w1 = ((bucket w)(?f := None))(d := bucket w ?f) \<and> log w1 = log w @ [Move ?f d]"
      by simp
    then obtain d where d: "d = ?t \<or> (\<exists>v. d = fallback_dest ?t v)"
      and src: "bucket w ?f \<noteq> None"
      and b1: "bucket w1 = ((bucket w)(?f := None))(d := bucket w ?f)"
      and l1: "log w1 = log w @ [Move ?f d]"
      by blast
    from d have da: "prefix ''archive/'' d"
      using archive_dest_archive fallback_archive_dest by blast
    from inc da have ne: "?f \<noteq> d" using incoming_not_archive by blast
    obtain r2 w2 where a2: "archive_all sv ts es w1 = (r2, w2)"
      by (cases "archive_all sv ts es w1")
    note ih = Cons.IH [OF a2 incs]
    from ih have t2: "files_table w2 = files_table w1" by (rule conjunct1)
    from ih have pa: "\<forall>p. prefix ''archive/'' p \<longrightarrow> bucket w1 p \<noteq> None \<longrightarrow> bucket w2 p \<noteq> None"
      by (elim conjE)
    from ih have pi: "\<forall>p. prefix ''incoming/'' p \<longrightarrow> bucket w1 p = None \<longrightarrow> bucket w2 p = None"
      by (elim conjE)
    from ih have "\<exists>xs. log w2 = log w1 @ xs \<and>
       (\<forall>ds. r2 = Inr ds \<longrightarrow> (\<forall>e\<in>set es. archived w2 xs ts (row e)))"
      by (elim conjE)
    then obtain xs where l2: "log w2 = log w1 @ xs"
      and all: "\<forall>ds. r2 = Inr ds \<longrightarrow> (\<forall>e\<in>set es. archived w2 xs ts (row e))"
      by (elim exE conjE)
    from Cons.prems(1) m0 Inr a2 have rw: "w' = w2"
      by (auto simp: Let_def split: sum.splits)
    from Cons.prems(1) m0 Inr a2 have rr: "\<And>ds. r = Inr ds \<Longrightarrow> \<exists>ds'. r2 = Inr ds'"
      by (auto simp: Let_def split: sum.splits)
    have A: "\<forall>p. prefix ''archive/'' p \<longrightarrow> bucket w p \<noteq> None \<longrightarrow> bucket w2 p \<noteq> None"
    proof (intro allI impI)
      fix p assume p: "prefix ''archive/'' p" and q: "bucket w p \<noteq> None"
      from p inc have "p \<noteq> ?f" using incoming_not_archive by blast
      with q src have "bucket w1 p \<noteq> None" by (simp add: b1)
      with pa p show "bucket w2 p \<noteq> None" by blast
    qed
    have B: "\<forall>p. prefix ''incoming/'' p \<longrightarrow> bucket w p = None \<longrightarrow> bucket w2 p = None"
    proof (intro allI impI)
      fix p assume p: "prefix ''incoming/'' p" and q: "bucket w p = None"
      from p da have "p \<noteq> d" using incoming_not_archive by blast
      with q have "bucket w1 p = None" by (simp add: b1)
      with pi p show "bucket w2 p = None" by blast
    qed
    have e1: "bucket w1 ?f = None" using ne by (simp add: b1)
    have e2: "bucket w1 d \<noteq> None" using src by (simp add: b1)
    from e1 inc pi have E1: "bucket w2 ?f = None" by blast
    from e2 da pa have E2: "bucket w2 d \<noteq> None" by blast
    have L: "log w2 = log w @ (Move ?f d # xs)" using l1 l2 by simp
    have first: "archived w2 (Move ?f d # xs) ts (row e)"
      by (rule archivedI [OF E1 d _ E2]) simp
    have C: "\<forall>ds. r = Inr ds \<longrightarrow> (\<forall>e'\<in>set (e # es). archived w2 (Move ?f d # xs) ts (row e'))"
    proof (intro allI impI ballI)
      fix ds e' assume r: "r = Inr ds" and e': "e' \<in> set (e # es)"
      from rr [OF r] obtain ds' where r2: "r2 = Inr ds'" by blast
      show "archived w2 (Move ?f d # xs) ts (row e')"
      proof (cases "e' = e")
        case True
        with first show ?thesis by simp
      next
        case False
        with e' have "e' \<in> set es" by simp
        with all r2 have "archived w2 xs ts (row e')" by blast
        then show ?thesis by (rule archived_log_mono) auto
      qed
    qed
    have T: "files_table w2 = files_table w" using t1 t2 by simp
    from L C have X: "\<exists>xs. log w2 = log w @ xs \<and>
       (\<forall>ds. r = Inr ds \<longrightarrow> (\<forall>e\<in>set (e # es). archived w2 xs ts (row e)))"
      by (intro exI conjI)
    show ?thesis unfolding rw by (intro conjI T A B X)
  qed
qed

text \<open>The updates of the rows, and the insert of the output row.\<close>

lemma update_rows_table:
  assumes "update_rows sv ps w = (Inr u, w')" and "distinct (map (\<lambda>q. row_id (fst q)) ps)"
  shows "bucket w' = bucket w \<and>
    map row_id (files_table w') = map row_id (files_table w) \<and>
    (\<exists>xs. log w' = log w @ xs \<and> (\<forall>q\<in>set ps. Update (row_id (fst q)) (snd q) \<in> set xs)) \<and>
    (\<forall>y\<in>set (files_table w').
       (\<forall>q\<in>set ps. row_id y = row_id (fst q) \<longrightarrow> file_path y = snd q) \<and>
       ((\<forall>q\<in>set ps. row_id y \<noteq> row_id (fst q)) \<longrightarrow> y \<in> set (files_table w)))"
  using assms
proof (induction ps arbitrary: w w')
  case Nil
  then show ?case by simp
next
  case (Cons xp ps)
  obtain x p where xp: "xp = (x, p)" by (cases xp)
  let ?upd = "\<lambda>y. if row_id y = row_id x
                  then y\<lparr>file_path := p, updated_at := now_iso sv w\<rparr> else y"
  obtain b w1 where a1: "attempt sv (Update (row_id x) p) w = (b, w1)"
    by (cases "attempt sv (Update (row_id x) p) w")
  note d1 = attempt_data [OF a1]
  from Cons.prems(1) a1 xp have b: "b" by (cases b) auto
  let ?w1 = "w1\<lparr>files_table := map ?upd (files_table w1)\<rparr>"
  from Cons.prems(1) a1 xp b have rec: "update_rows sv ps ?w1 = (Inr u, w')" by simp
  from Cons.prems(2) xp have dist: "distinct (map (\<lambda>q. row_id (fst q)) ps)"
    and fresh: "\<forall>q\<in>set ps. row_id x \<noteq> row_id (fst q)" by auto
  note ih = Cons.IH [OF rec dist]
  from ih have bk: "bucket w' = bucket ?w1" by (rule conjunct1)
  from ih have ids: "map row_id (files_table w') = map row_id (files_table ?w1)" by (elim conjE)
  from ih have "\<exists>xs. log w' = log ?w1 @ xs \<and> (\<forall>q\<in>set ps. Update (row_id (fst q)) (snd q) \<in> set xs)"
    by (elim conjE)
  then obtain xs where lg: "log w' = log ?w1 @ xs"
    and ups: "\<forall>q\<in>set ps. Update (row_id (fst q)) (snd q) \<in> set xs" by (elim exE conjE)
  from ih have tb: "\<forall>y\<in>set (files_table w').
       (\<forall>q\<in>set ps. row_id y = row_id (fst q) \<longrightarrow> file_path y = snd q) \<and>
       ((\<forall>q\<in>set ps. row_id y \<noteq> row_id (fst q)) \<longrightarrow> y \<in> set (files_table ?w1))"
    by (elim conjE)
  have t1: "files_table ?w1 = map ?upd (files_table w)" using d1 by simp
  have idu: "map row_id (map ?upd tbl) = map row_id tbl" for tbl
    by (induction tbl) auto
  have L: "log w' = log w @ (Update (row_id x) p # xs)" using lg d1 b by simp
  have U: "\<forall>q\<in>set (xp # ps). Update (row_id (fst q)) (snd q) \<in> set (Update (row_id x) p # xs)"
    using ups xp by simp
  have T: "\<forall>y\<in>set (files_table w').
       (\<forall>q\<in>set (xp # ps). row_id y = row_id (fst q) \<longrightarrow> file_path y = snd q) \<and>
       ((\<forall>q\<in>set (xp # ps). row_id y \<noteq> row_id (fst q)) \<longrightarrow> y \<in> set (files_table w))"
  proof
    fix y assume y: "y \<in> set (files_table w')"
    with tb have rest: "\<forall>q\<in>set ps. row_id y = row_id (fst q) \<longrightarrow> file_path y = snd q"
      and old: "(\<forall>q\<in>set ps. row_id y \<noteq> row_id (fst q)) \<longrightarrow> y \<in> set (files_table ?w1)"
      by blast+
    have first: "row_id y = row_id x \<longrightarrow> file_path y = p"
    proof
      assume e: "row_id y = row_id x"
      with fresh old have "y \<in> set (files_table ?w1)" by simp
      then have "y \<in> ?upd ` set (files_table w)" unfolding t1 by simp
      then obtain z where z: "y = ?upd z" by blast
      show "file_path y = p"
      proof (cases "row_id z = row_id x")
        case True
        with z show ?thesis by simp
      next
        case False
        with z have "y = z" by simp
        with e False show ?thesis by simp
      qed
    qed
    have other: "(\<forall>q\<in>set (xp # ps). row_id y \<noteq> row_id (fst q)) \<longrightarrow> y \<in> set (files_table w)"
    proof
      assume n: "\<forall>q\<in>set (xp # ps). row_id y \<noteq> row_id (fst q)"
      then have ny: "row_id y \<noteq> row_id x" and "\<forall>q\<in>set ps. row_id y \<noteq> row_id (fst q)"
        using xp by simp_all
      with old have "y \<in> set (files_table ?w1)" by simp
      then have "y \<in> ?upd ` set (files_table w)" unfolding t1 by simp
      then obtain z where z: "z \<in> set (files_table w)" "y = ?upd z" by blast
      show "y \<in> set (files_table w)"
      proof (cases "row_id z = row_id x")
        case True
        with z have "row_id y = row_id x" by simp
        with ny show ?thesis by simp
      next
        case False
        with z show ?thesis by simp
      qed
    qed
    from rest first xp
    have one: "\<forall>q\<in>set (xp # ps). row_id y = row_id (fst q) \<longrightarrow> file_path y = snd q" by simp
    from one other
    show "(\<forall>q\<in>set (xp # ps). row_id y = row_id (fst q) \<longrightarrow> file_path y = snd q) \<and>
       ((\<forall>q\<in>set (xp # ps). row_id y \<noteq> row_id (fst q)) \<longrightarrow> y \<in> set (files_table w))"
      by (rule conjI)
  qed
  have Bk: "bucket w' = bucket w" using bk d1 by simp
  have Ids: "map row_id (files_table w') = map row_id (files_table w)"
    using ids t1 idu by simp
  from L U have X: "\<exists>xs. log w' = log w @ xs \<and>
      (\<forall>q\<in>set (xp # ps). Update (row_id (fst q)) (snd q) \<in> set xs)"
    by (intro exI conjI)
  show ?case by (intro conjI Bk Ids X T)
qed

lemma fold_max_ge: "a \<le> fold max xs (a::nat) \<and> (\<forall>x\<in>set xs. x \<le> fold max xs a)"
proof (induction xs arbitrary: a)
  case Nil
  then show ?case by simp
next
  case (Cons y ys)
  from Cons [of "max y a"] show ?case by (auto simp: max_def split: if_splits)
qed

lemma fresh_id_fresh: "fresh_id rows \<notin> set (map row_id rows)"
proof
  assume "fresh_id rows \<in> set (map row_id rows)"
  with fold_max_ge [of 0 "map row_id rows"] have "fresh_id rows \<le> fold max (map row_id rows) 0"
    by blast
  then show False by (simp add: fresh_id_def)
qed

lemma insert_table:
  "sb_insert_output_row sv nm p sz w = (Inr u, w') \<Longrightarrow>
   bucket w' = bucket w \<and> (\<exists>xs. log w' = log w @ xs) \<and>
   (\<exists>new. files_table w' = files_table w @ [new] \<and> row_id new \<notin> set (map row_id (files_table w)))"
  using fresh_id_fresh [of "files_table w"]
  by (auto simp: sb_insert_output_row_def split: prod.splits bool.splits dest!: attempt_data)

text \<open>What follows the montage, and the whole run.\<close>

lemma relocated_table:
  "relocated w ts x \<Longrightarrow> files_table w' = files_table w \<Longrightarrow> relocated w' ts x"
  unfolding relocated_def by simp

lemma zip_rows_dests:
  "zip (map row es) (map f es) = map (\<lambda>e. (row e, f e)) es"
  by (induction es) simp_all

lemma updates_not_storage:
  "\<not> list_ex is_storage_write (map (\<lambda>(x, p). Update (row_id x) p) ps)"
  by (induction ps) auto

lemma update_rows_bucket:
  assumes "update_rows sv ps w = (r, w')"
  shows "bucket w' = bucket w \<and> (\<exists>xs. log w' = log w @ xs)"
proof -
  from update_rows_extends [OF assms] obtain k where
    "extends w w' (map (\<lambda>(x, p). Update (row_id x) p) (take k ps))" by blast
  with updates_not_storage [of "take k ps"] show ?thesis
    unfolding extends_def by blast
qed

lemma publish_state:
  assumes pa: "publish_and_archive sv es m w = (r, w')"
    and inc: "\<forall>e\<in>set es. prefix ''incoming/'' (file_path (row e))"
    and present: "\<forall>e\<in>set es. row_id (row e) \<in> set (map row_id (files_table w))"
    and ok: "r = Returned \<or> r = Raised UpdateError \<or> r = Raised InsertError"
  defines "ts \<equiv> strftime_sec sv (clock w)"
  shows "\<exists>xs. log w' = log w @ xs \<and>
     (\<forall>e\<in>set es. archived w' xs ts (row e)) \<and>
     (r = Returned \<longrightarrow>
        (\<forall>e\<in>set es. Update (row_id (row e)) (archive_dest ts (row e)) \<in> set xs \<and>
           (distinct (map (\<lambda>e. row_id (row e)) es) \<longrightarrow> relocated w' ts (row e))))"
proof -
  let ?name = "''montage_output_'' @ ts @ ''.mp4''"
  let ?remote = "''outputs/'' @ ?name"
  let ?dest = "\<lambda>e. ''archive/'' @ basename (file_path (row e)) @ ''.'' @ ts"
  obtain r1 w1 where s1: "sb_storage_upload_from sv (out_bytes m) (out_path m) ?remote w = (r1, w1)"
    by (cases "sb_storage_upload_from sv (out_bytes m) (out_path m) ?remote w")
  note e1 = upload_extends [OF s1]
  show ?thesis
  proof (cases r1)
    case (Inl e)
    with pa s1 have "r = Raised e"
      by (auto simp: publish_and_archive_def Let_def ts_def)
    with e1 Inl ok show ?thesis by auto
  next
    case u: (Inr u1)
    with e1 have x1: "extends w w1 [Upload (out_path m) ?remote]" by simp
    then have l1: "log w1 = log w @ [Upload (out_path m) ?remote]"
      and t1: "files_table w1 = files_table w"
      by (simp_all add: extends_def)
    obtain r2 w2 where s2: "archive_all sv ts es w1 = (r2, w2)"
      by (cases "archive_all sv ts es w1")
    from archive_all_extends [OF s2] have r2c:
      "case r2 of Inl e \<Rightarrow> e = MoveError | Inr ds \<Rightarrow> ds = map ?dest es"
      by (auto split: sum.splits)
    note st2 = archive_all_state [OF s2 inc]
    show ?thesis
    proof (cases r2)
      case (Inl e)
      with pa s1 u s2 have "r = Raised e"
        by (auto simp: publish_and_archive_def Let_def ts_def)
      with r2c Inl ok show ?thesis by auto
    next
      case a: (Inr ds)
      with r2c have ds: "ds = map ?dest es" by simp
      from st2 have t2: "files_table w2 = files_table w1" by (rule conjunct1)
      from st2 have "\<exists>xs. log w2 = log w1 @ xs \<and>
          (\<forall>ds. r2 = Inr ds \<longrightarrow> (\<forall>e\<in>set es. archived w2 xs ts (row e)))"
        by (elim conjE)
      then obtain mvs where l2: "log w2 = log w1 @ mvs"
        and ar0: "\<forall>ds. r2 = Inr ds \<longrightarrow> (\<forall>e\<in>set es. archived w2 mvs ts (row e))"
        by (elim exE conjE)
      from ar0 a have ar: "\<forall>e\<in>set es. archived w2 mvs ts (row e)" by blast
      let ?ps = "zip (map row es) ds"
      have ps: "?ps = map (\<lambda>e. (row e, archive_dest ts (row e))) es"
        unfolding ds archive_dest_def by (rule zip_rows_dests)
      obtain r3 w3 where s3: "sb_update_file_paths sv (map row es) ds w2 = (r3, w3)"
        by (cases "sb_update_file_paths sv (map row es) ds w2")
      then have s3': "update_rows sv ?ps w2 = (r3, w3)"
        by (simp add: sb_update_file_paths_def)
      from update_rows_bucket [OF s3'] obtain us where b3: "bucket w3 = bucket w2"
        and l3: "log w3 = log w2 @ us" by blast
      have ar3: "\<forall>e\<in>set es. archived w3 (Upload (out_path m) ?remote # mvs @ us) ts (row e)"
      proof
        fix e assume "e \<in> set es"
        with ar have "archived w2 mvs ts (row e)" by blast
        then have "archived w3 mvs ts (row e)" using b3 by (rule archived_bucket)
        then show "archived w3 (Upload (out_path m) ?remote # mvs @ us) ts (row e)"
          by (rule archived_log_mono) auto
      qed
      have L3: "log w3 = log w @ (Upload (out_path m) ?remote # mvs @ us)"
        using l1 l2 l3 by simp
      show ?thesis
      proof (cases r3)
        case (Inl e)
        with pa s1 u s2 a s3 have rw: "r = Raised e" "w' = w3"
          by (auto simp: publish_and_archive_def Let_def ts_def)
        from L3 ar3 rw show ?thesis by (intro exI [of _ "Upload (out_path m) ?remote # mvs @ us"]) simp
      next
        case b: (Inr u3)
        from s3' b have s3'': "update_rows sv ?ps w2 = (Inr u3, w3)" by simp
        from update_rows_extends [OF s3'] b
        have "log w3 = log w2 @ map (\<lambda>(x, p). Update (row_id x) p) ?ps"
          by (auto simp: extends_def)
        with l3 have us: "us = map (\<lambda>(x, p). Update (row_id x) p) ?ps" by simp
        have upd: "\<forall>e\<in>set es. Update (row_id (row e)) (archive_dest ts (row e)) \<in> set us"
          unfolding us ps by (auto simp: image_iff)
        have tab: "relocated w3 ts (row e)"
          if e: "e \<in> set es" and dist: "distinct (map (\<lambda>e. row_id (row e)) es)" for e
        proof -
          have dps: "distinct (map (\<lambda>q. row_id (fst q)) ?ps)"
            using dist unfolding ps by (simp add: comp_def)
          note ut = update_rows_table [OF s3'' dps]
          from ut have ids3: "map row_id (files_table w3) = map row_id (files_table w2)"
            by (elim conjE)
          from ut have tb: "\<forall>y\<in>set (files_table w3).
              (\<forall>q\<in>set ?ps. row_id y = row_id (fst q) \<longrightarrow> file_path y = snd q) \<and>
              ((\<forall>q\<in>set ?ps. row_id y \<noteq> row_id (fst q)) \<longrightarrow> y \<in> set (files_table w2))"
            by (elim conjE)
          from e have q: "(row e, archive_dest ts (row e)) \<in> set ?ps" unfolding ps by auto
          from present e have "row_id (row e) \<in> set (map row_id (files_table w))" by blast
          then have "row_id (row e) \<in> set (map row_id (files_table w3))"
            by (simp only: ids3 t2 t1)
          then have c2: "\<exists>y\<in>set (files_table w3). row_id y = row_id (row e)" by auto
          have c3: "\<forall>y\<in>set (files_table w3). row_id y = row_id (row e) \<longrightarrow>
              file_path y = archive_dest ts (row e)"
          proof (intro ballI impI)
            fix y assume y: "y \<in> set (files_table w3)" and i: "row_id y = row_id (row e)"
            with tb have "\<forall>q\<in>set ?ps. row_id y = row_id (fst q) \<longrightarrow> file_path y = snd q"
              by blast
            with q i show "file_path y = archive_dest ts (row e)" by fastforce
          qed
          from c2 c3 show ?thesis unfolding relocated_def by (rule conjI)
        qed
        obtain r4 w4 where s4: "sb_insert_output_row sv ?name ?remote (length (out_bytes m)) w3 = (r4, w4)"
          by (cases "sb_insert_output_row sv ?name ?remote (length (out_bytes m)) w3")
        note e4 = insert_extends [OF s4]
        show ?thesis
        proof (cases r4)
          case (Inl e)
          with pa s1 u s2 a s3 b s4 have rw: "r = Raised e" "w' = w4"
            by (auto simp: publish_and_archive_def Let_def ts_def)
          from e4 Inl have "extends w3 w4 []" by simp
          then have b4: "bucket w4 = bucket w3" and l4: "log w4 = log w3"
            by (simp_all add: extends_def)
          have "\<forall>e\<in>set es. archived w4 (Upload (out_path m) ?remote # mvs @ us) ts (row e)"
            using ar3 b4 archived_bucket by blast
          with L3 l4 rw show ?thesis
            by (intro exI [of _ "Upload (out_path m) ?remote # mvs @ us"]) simp
        next
          case c: (Inr u4)
          with pa s1 u s2 a s3 b s4 have rw: "r = Returned"
            "w' = w4\<lparr>LAST_RUN := Some (now_iso sv w4)\<rparr>"
            by (auto simp: publish_and_archive_def Let_def ts_def)
          from s4 c have s4': "sb_insert_output_row sv ?name ?remote (length (out_bytes m)) w3 = (Inr u4, w4)"
            by simp
          note it = insert_table [OF s4']
          from it have b4: "bucket w4 = bucket w3" by (rule conjunct1)
          from e4 c have l4: "log w4 = log w3 @ [Insert ?name ?remote (length (out_bytes m))]"
            by (simp add: extends_def)
          from it obtain new where t4: "files_table w4 = files_table w3 @ [new]"
            and fresh: "row_id new \<notin> set (map row_id (files_table w3))" by blast
          let ?xs = "Upload (out_path m) ?remote # mvs @ us
                       @ [Insert ?name ?remote (length (out_bytes m))]"
          have L: "log w' = log w @ ?xs" using L3 l4 rw by simp
          have A: "\<forall>e\<in>set es. archived w' ?xs ts (row e)"
          proof
            fix e assume "e \<in> set es"
            with ar3 have "archived w3 (Upload (out_path m) ?remote # mvs @ us) ts (row e)" by blast
            then have "archived w' (Upload (out_path m) ?remote # mvs @ us) ts (row e)"
              by (rule archived_bucket) (simp add: rw b4)
            then show "archived w' ?xs ts (row e)"
              by (rule archived_log_mono) auto
          qed
          have R: "\<forall>e\<in>set es. Update (row_id (row e)) (archive_dest ts (row e)) \<in> set ?xs \<and>
              (distinct (map (\<lambda>e. row_id (row e)) es) \<longrightarrow> relocated w' ts (row e))"
          proof (intro ballI conjI impI)
            fix e assume e: "e \<in> set es"
            with upd show "Update (row_id (row e)) (archive_dest ts (row e)) \<in> set ?xs" by simp
            assume dist: "distinct (map (\<lambda>e. row_id (row e)) es)"
            from tab [OF e dist] have ex: "\<exists>y\<in>set (files_table w3). row_id y = row_id (row e)"
              and al: "\<forall>y\<in>set (files_table w3). row_id y = row_id (row e) \<longrightarrow>
                file_path y = archive_dest ts (row e)"
              unfolding relocated_def by blast+
            from ex have in3: "row_id (row e) \<in> set (map row_id (files_table w3))"
              by (auto simp: image_iff) metis
            from ex have c2: "\<exists>y\<in>set (files_table w'). row_id y = row_id (row e)"
              unfolding rw by (auto simp: t4)
            have c3: "\<forall>y\<in>set (files_table w'). row_id y = row_id (row e) \<longrightarrow>
                file_path y = archive_dest ts (row e)"
            proof (intro ballI impI)
              fix y assume y: "y \<in> set (files_table w')" and i: "row_id y = row_id (row e)"
              from y have "y \<in> set (files_table w3) \<or> y = new" unfolding rw by (auto simp: t4)
              moreover from fresh in3 i have "y \<noteq> new" by auto
              ultimately have "y \<in> set (files_table w3)" by blast
              with al i show "file_path y = archive_dest ts (row e)" by blast
            qed
            from c2 c3 show "relocated w' ts (row e)" unfolding relocated_def by (rule conjI)
          qed
          from L A R show ?thesis by (intro exI [of _ ?xs]) simp
        qed
      qed
    qed
  qed
qed

lemma montage_errors:
  assumes "build_montage_for_paths env ps = Inl e"
  shows "e \<noteq> UpdateError \<and> e \<noteq> InsertError"
proof -
  have v: "\<And>es e. compose_videos env es = Inl e \<Longrightarrow> e \<noteq> UpdateError \<and> e \<noteq> InsertError"
  proof -
    fix es e show "compose_videos env es = Inl e \<Longrightarrow> e \<noteq> UpdateError \<and> e \<noteq> InsertError"
      by (induction es arbitrary: e)
         (auto simp: resize_crop_9x16_video_def resize_height_def Let_def
            split: option.splits sum.splits if_splits)
  qed
  have i: "\<And>ims e. compose_images env ims = Inl e \<Longrightarrow> e \<noteq> UpdateError \<and> e \<noteq> InsertError"
  proof -
    fix ims e show "compose_images env ims = Inl e \<Longrightarrow> e \<noteq> UpdateError \<and> e \<noteq> InsertError"
      by (induction ims arbitrary: e)
         (auto simp: resize_crop_9x16_image_def resize_height_def Let_def
            split: option.splits sum.splits if_splits prod.splits)
  qed
  have f: "\<And>e. final_clips_of env ps = Inl e \<Longrightarrow> e \<noteq> UpdateError \<and> e \<noteq> InsertError"
    using v i by (auto simp: final_clips_of_def Let_def split: sum.splits)
  from assms show ?thesis
    using f by (auto simp: build_montage_for_paths_def Let_def split: sum.splits option.splits if_splits)
qed

lemma incoming_rows:
  "x \<in> set (incoming_query tbl) \<Longrightarrow> prefix ''incoming/'' (file_path x) \<and> x \<in> set tbl"
  by (simp add: incoming_query_def)

lemma incoming_distinct:
  "distinct (map row_id tbl) \<Longrightarrow> distinct (map row_id (incoming_query tbl))"
  by (auto simp: incoming_query_def distinct_map intro: inj_on_subset)

lemma run_archives:
  assumes idle: "\<not> IS_CREATING w" and run: "run_build_pipeline env sv w = (r, w')"
    and ok: "r = Returned \<or> r = Raised UpdateError \<or> r = Raised InsertError"
    and ne: "incoming_query (files_table w) \<noteq> []"
  shows "\<exists>c. (\<forall>x\<in>set (incoming_query (files_table w)).
                 archived w' (new_log w w') (strftime_sec sv c) x) \<and>
     (r = Returned \<longrightarrow>
        (\<forall>x\<in>set (incoming_query (files_table w)).
           Update (row_id x) (archive_dest (strftime_sec sv c) x) \<in> set (new_log w w') \<and>
           (distinct (map row_id (files_table w)) \<longrightarrow> relocated w' (strftime_sec sv c) x)))"
proof -
  let ?rows = "incoming_query (files_table w)"
  let ?w0 = "w\<lparr>IS_CREATING := True, STARTED_AT := Some (now_iso sv w)\<rparr>"
  let ?tmp = "job_dir sv ?w0"
  let ?es = "map (\<lambda>x. \<lparr>row = x, local = local_of ?tmp x\<rparr>) ?rows"
  from run_build_pipeline_body [OF idle run] obtain wb where
    body: "pipeline_body env sv ?w0 = (r, wb)" and w': "w' = wb\<lparr>IS_CREATING := False\<rparr>"
    by blast
  have rows0: "incoming_query (files_table ?w0) = ?rows" by simp
  note cs = pipeline_body_cases [OF body, unfolded rows0]
  from cs ok ne obtain w2 where
    x2: "extends ?w0 w2 (Select # map (download_rq ?tmp) ?rows)"
    and bm: "case build_montage_for_paths env (map (local_of ?tmp) ?rows) of
               Inl e \<Rightarrow> r = Raised e \<and> wb = w2
             | Inr m \<Rightarrow> publish_and_archive sv ?es m w2 = (r, wb)"
    by auto
  from x2 have l2: "log w2 = log w @ (Select # map (download_rq ?tmp) ?rows)"
    and t2: "files_table w2 = files_table w"
    using downloads_no_writes [of ?tmp ?rows] by (simp_all add: extends_def)
  show ?thesis
  proof (cases "build_montage_for_paths env (map (local_of ?tmp) ?rows)")
    case (Inl e)
    with bm have "r = Raised e" by simp
    with montage_errors [OF Inl] ok show ?thesis by auto
  next
    case (Inr m)
    with bm have pa: "publish_and_archive sv ?es m w2 = (r, wb)" by simp
    have inc: "\<forall>e\<in>set ?es. prefix ''incoming/'' (file_path (row e))"
      using incoming_rows by auto
    have present: "\<forall>e\<in>set ?es. row_id (row e) \<in> set (map row_id (files_table w2))"
      unfolding t2 using incoming_rows by auto
    let ?ts = "strftime_sec sv (clock w2)"
    from publish_state [OF pa inc present ok] obtain xs where
      lb: "log wb = log w2 @ xs"
      and ar: "\<forall>e\<in>set ?es. archived wb xs ?ts (row e)"
      and rl: "r = Returned \<longrightarrow>
        (\<forall>e\<in>set ?es. Update (row_id (row e)) (archive_dest ?ts (row e)) \<in> set xs \<and>
           (distinct (map (\<lambda>e. row_id (row e)) ?es) \<longrightarrow> relocated wb ?ts (row e)))"
      by blast
    have "log w' = log w @ ((Select # map (download_rq ?tmp) ?rows) @ xs)"
      using lb l2 w' by simp
    then have nl: "new_log w w' = (Select # map (download_rq ?tmp) ?rows) @ xs"
      by (rule new_log_append)
    have sub: "set xs \<subseteq> set (new_log w w')" unfolding nl by auto
    have bk: "bucket w' = bucket wb" and tb: "files_table w' = files_table wb"
      using w' by simp_all
    have A: "\<forall>x\<in>set ?rows. archived w' (new_log w w') ?ts x"
    proof
      fix x assume "x \<in> set ?rows"
      with ar have "archived wb xs ?ts x" by simp
      then have "archived w' xs ?ts x" using bk by (rule archived_bucket)
      then show "archived w' (new_log w w') ?ts x" using sub by (rule archived_log_mono)
    qed
    have dm: "map (\<lambda>e. row_id (row e)) ?es = map row_id ?rows" by (simp add: comp_def)
    have R: "r = Returned \<longrightarrow>
        (\<forall>x\<in>set ?rows.
           Update (row_id x) (archive_dest ?ts x) \<in> set (new_log w w') \<and>
           (distinct (map row_id (files_table w)) \<longrightarrow> relocated w' ?ts x))"
    proof (intro impI ballI conjI)
      fix x assume r: "r = Returned" and x: "x \<in> set ?rows"
      with rl have u: "Update (row_id x) (archive_dest ?ts x) \<in> set xs"
        and d: "distinct (map (\<lambda>e. row_id (row e)) ?es) \<longrightarrow> relocated wb ?ts x"
        by simp_all
      from u sub show "Update (row_id x) (archive_dest ?ts x) \<in> set (new_log w w')" by blast
      assume "distinct (map row_id (files_table w))"
      then have "distinct (map row_id ?rows)" by (rule incoming_distinct)
      with d have "relocated wb ?ts x" by (simp only: dm)
      then show "relocated w' ?ts x" using tb by (rule relocated_table)
    qed
    from A R show ?thesis by (intro exI [of _ "clock w2"] conjI)
  qed
qed

section \<open>The outcomes of a run\<close>

text \<open>
  C9. When the flag is clear, the query does not raise and finds no pending row, the run
  returns normally; the catalog, the storage and \<open>LAST_RUN\<close> are as before, and the
  only request made is the query: nothing is written, nothing is uploaded or inserted.
\<close>

theorem noop_run:
  "\<not> IS_CREATING w \<Longrightarrow> \<not> fails sv (log w) Select \<Longrightarrow> incoming_query (files_table w) = [] \<Longrightarrow>
   (\<exists>w'. run_build_pipeline env sv w = (Returned, w') \<and>
      files_table w' = files_table w \<and> bucket w' = bucket w \<and> LAST_RUN w' = LAST_RUN w \<and>
      new_log w w' = [Select] \<and>
      \<not> list_ex is_catalog_write (new_log w w') \<and> \<not> list_ex is_storage_write (new_log w w') \<and>
      \<not> IS_CREATING w')"
  by (simp add: run_build_pipeline_def pipeline_body_def sb_list_incoming_files_def attempt_def
      new_log_def)

lemma ex_noop:
  "run_build_pipeline ex_env ex_sv ex_idle =
     (Returned, ex_idle\<lparr>clock := 1, log := [Select], STARTED_AT := Some []\<rparr>)"
  by (simp add: run_build_pipeline_def pipeline_body_def sb_list_incoming_files_def attempt_def
      incoming_query_def now_iso_def ex_sv_def ex_idle_def)

theorem noop_run_witness:
  "\<not> IS_CREATING ex_idle \<and> \<not> fails ex_sv (log ex_idle) Select \<and>
   incoming_query (files_table ex_idle) = [] \<and>
   fst (run_build_pipeline ex_env ex_sv ex_idle) = Returned \<and>
   LAST_RUN (snd (run_build_pipeline ex_env ex_sv ex_idle)) = None \<and>
   files_table (snd (run_build_pipeline ex_env ex_sv ex_idle)) = [] \<and>
   new_log ex_idle (snd (run_build_pipeline ex_env ex_sv ex_idle)) = [Select]"
  using noop_run [of ex_idle ex_sv ex_env]
  by (auto simp: ex_idle_def ex_sv_def incoming_query_def)

text \<open>
  Two runs on the world with two pending images: one where no request raises, and one
  where the storage refuses to move \<open>incoming/b.png\<close>.
\<close>

lemma ex_png_kinds:
  "\<not> endswith (lower ''/w/job/a.png'') video_exts" "endswith (lower ''/w/job/a.png'') image_exts"
  "\<not> endswith (lower ''/w/job/b.png'') video_exts" "endswith (lower ''/w/job/b.png'') image_exts"
  by (simp_all add: endswith_def endswith1_def lower_def lower_char_def video_exts_def image_exts_def)

lemma ex_png_montage:
  "build_montage_for_paths ex_env [''/w/job/a.png'', ''/w/job/b.png''] =
     Inr \<lparr>out_path = ''/w/job/montage_output.mp4'',
          final_clips =
            [(''/w/job/a.png'', \<lparr>clip_w = 960, clip_h = 1920, clip_duration = 3, clip_x1 = 0\<rparr>),
             (''/w/job/b.png'', \<lparr>clip_w = 960, clip_h = 1920, clip_duration = 3, clip_x1 = 0\<rparr>)],
          out_bytes = [0, 0]\<rparr>"
  by (simp add: build_montage_for_paths_def final_clips_of_def ex_png_kinds order_videos_def
      resize_crop_video_eq resize_crop_image_eq Let_def dirname_def path_join_def ex_fields)

lemma ex_success_run:
  "fst (run_build_pipeline ex_env ex_sv ex_pending) = Returned \<and>
   log (snd (run_build_pipeline ex_env ex_sv ex_pending)) =
     [Select,
      Download ''incoming/a.png'' ''/w/job/a.png'',
      Download ''incoming/b.png'' ''/w/job/b.png'',
      Upload ''/w/job/montage_output.mp4'' ''outputs/montage_output_sss.mp4'',
      Move ''incoming/a.png'' ''archive/a.png.sss'',
      Move ''incoming/b.png'' ''archive/b.png.sss'',
      Update 1 ''archive/a.png.sss'',
      Update 2 ''archive/b.png.sss'',
      Insert ''montage_output_sss.mp4'' ''outputs/montage_output_sss.mp4'' 2] \<and>
   LAST_RUN (snd (run_build_pipeline ex_env ex_sv ex_pending)) = Some ''iiiiiiiii'' \<and>
   clock (snd (run_build_pipeline ex_env ex_sv ex_pending)) = 9"
  by (simp add: run_build_pipeline_def pipeline_body_def sb_list_incoming_files_def attempt_def
      incoming_query_def Let_def ex_png_montage
      sb_storage_download_to_def sb_storage_upload_from_def sb_storage_move_def storage_move_def
      sb_update_file_paths_def sb_insert_output_row_def publish_and_archive_def
      path_join_def basename_def now_iso_def
      ex_sv_def ex_pending_def ex_idle_def ex_row_a_def ex_row_b_def)


lemma ex_failed_run:
  "fst (run_build_pipeline ex_env ex_sv_b ex_pending) = Raised MoveError \<and>
   log (snd (run_build_pipeline ex_env ex_sv_b ex_pending)) =
     [Select,
      Download ''incoming/a.png'' ''/w/job/a.png'',
      Download ''incoming/b.png'' ''/w/job/b.png'',
      Upload ''/w/job/montage_output.mp4'' ''outputs/montage_output_sss.mp4'',
      Move ''incoming/a.png'' ''archive/a.png.sss''] \<and>
   LAST_RUN (snd (run_build_pipeline ex_env ex_sv_b ex_pending)) = None \<and>
   bucket (snd (run_build_pipeline ex_env ex_sv_b ex_pending)) ''incoming/a.png'' = None \<and>
   bucket (snd (run_build_pipeline ex_env ex_sv_b ex_pending)) ''archive/a.png.sss'' = Some [1] \<and>
   files_table (snd (run_build_pipeline ex_env ex_sv_b ex_pending)) = [ex_row_a, ex_row_b]"
  by (simp add: run_build_pipeline_def pipeline_body_def sb_list_incoming_files_def attempt_def
      incoming_query_def Let_def ex_png_montage
      sb_storage_download_to_def sb_storage_upload_from_def sb_storage_move_def storage_move_def
      sb_update_file_paths_def sb_insert_output_row_def publish_and_archive_def
      path_join_def basename_def now_iso_def splitext_def
      ex_sv_b_def ex_sv_def ex_pending_def ex_idle_def ex_row_a_def ex_row_b_def)

lemma is_move_of_not_select:
  "list_all2 is_move_of xs mvs \<Longrightarrow> filter (\<lambda>q. q = Select) mvs = []"
  by (induction xs mvs rule: list_all2_induct) (auto simp: is_move_of_def)

lemma downloads_not_select: "filter (\<lambda>q. q = Select) (map (download_rq tmp) xs) = []"
  by (induction xs) (simp_all add: download_rq_def)

lemma updates_not_select: "filter (\<lambda>q. q = Select) (map (update_rq ts) xs) = []"
  by (induction xs) (simp_all add: update_rq_def)

lemma trace_selects:
  "trace_of rows tmp bm ts r xs \<Longrightarrow> length (filter (\<lambda>q. q = Select) xs) \<le> 1"
  by (induction rule: trace_of.induct)
     (simp_all add: downloads_not_select updates_not_select is_move_of_not_select
        upload_rq_def insert_rq_def)

text \<open>
  C4, as the code has it. A run that gets past the flag ends with the flag cleared, whether
  it returns or raises, and wherever it raises. A run that raises leaves \<open>LAST_RUN\<close> as
  it was. A run that returns after finding pending rows has set \<open>LAST_RUN\<close> to the
  rendering of the clock at its end; a run that returns because nothing was pending leaves
  \<open>LAST_RUN\<close> as it was. No run makes the discovery query more than once: nothing is
  retried.
\<close>

theorem run_returns_to_idle:
  "\<not> IS_CREATING w \<Longrightarrow> run_build_pipeline env sv w = (r, w') \<Longrightarrow>
   \<not> IS_CREATING w' \<and>
   (\<forall>e. r = Raised e \<longrightarrow> LAST_RUN w' = LAST_RUN w) \<and>
   (r = Returned \<and> incoming_query (files_table w) \<noteq> [] \<longrightarrow>
      LAST_RUN w' = Some (isoformat sv (clock w'))) \<and>
   (r = Returned \<and> incoming_query (files_table w) = [] \<longrightarrow> LAST_RUN w' = LAST_RUN w) \<and>
   length (filter (\<lambda>q. q = Select) (new_log w w')) \<le> 1"
proof -
  assume idle: "\<not> IS_CREATING w" and run: "run_build_pipeline env sv w = (r, w')"
  from run_trace [OF idle run] obtain ts xs where
    t: "trace_of (incoming_query (files_table w)) (job_dir sv w)
          (build_montage_for_paths env
             (map (local_of (job_dir sv w)) (incoming_query (files_table w)))) ts r xs"
    and l: "log w' = log w @ xs" and i: "\<not> IS_CREATING w'"
    and lr: "LAST_RUN w' = (if r = Returned \<and> incoming_query (files_table w) \<noteq> []
               then Some (isoformat sv (clock w')) else LAST_RUN w)"
    by blast
  from l have "new_log w w' = xs" by (rule new_log_append)
  with trace_selects [OF t] i lr show ?thesis by auto
qed

theorem run_returns_to_idle_witness:
  "\<not> IS_CREATING ex_pending \<and>
   fst (run_build_pipeline ex_env ex_sv ex_pending) = Returned \<and>
   incoming_query (files_table ex_pending) \<noteq> [] \<and>
   \<not> IS_CREATING (snd (run_build_pipeline ex_env ex_sv ex_pending)) \<and>
   LAST_RUN (snd (run_build_pipeline ex_env ex_sv ex_pending)) = Some (isoformat ex_sv 9) \<and>
   fst (run_build_pipeline ex_env ex_sv_b ex_pending) = Raised MoveError \<and>
   \<not> IS_CREATING (snd (run_build_pipeline ex_env ex_sv_b ex_pending)) \<and>
   LAST_RUN (snd (run_build_pipeline ex_env ex_sv_b ex_pending)) = LAST_RUN ex_pending"
proof -
  have idle: "\<not> IS_CREATING ex_pending" by (simp add: ex_pending_def ex_idle_def)
  have q: "incoming_query (files_table ex_pending) \<noteq> []"
    by (simp add: incoming_query_def ex_pending_def ex_idle_def ex_row_a_def ex_row_b_def)
  have lr: "LAST_RUN ex_pending = None" by (simp add: ex_pending_def ex_idle_def)
  have iso: "isoformat ex_sv 9 = ''iiiiiiiii''" by (simp add: ex_sv_def eval_nat_numeral)
  note ok = run_returns_to_idle [where w = ex_pending and env = ex_env and sv = ex_sv,
      OF idle surjective_pairing]
  note bad = run_returns_to_idle [where w = ex_pending and env = ex_env and sv = ex_sv_b,
      OF idle surjective_pairing]
  show ?thesis
    using ok bad idle q lr ex_success_run ex_failed_run iso by simp
qed

text \<open>
  C4 as stated fails at the run that finds nothing pending: it returns normally, and
  \<open>LAST_RUN\<close> is not the time of its completion.
\<close>

theorem last_run_counterexample:
  "\<not> IS_CREATING ex_idle \<and>
   fst (run_build_pipeline ex_env ex_sv ex_idle) = Returned \<and>
   LAST_RUN (snd (run_build_pipeline ex_env ex_sv ex_idle))
     \<noteq> Some (isoformat ex_sv (clock (snd (run_build_pipeline ex_env ex_sv ex_idle))))"
  by (simp add: ex_noop) (simp add: ex_idle_def)

lemma trace_returned:
  assumes "trace_of rows tmp bm ts Returned xs" and "rows \<noteq> []"
  shows "\<exists>m mvs. bm = Inr m \<and> list_all2 is_move_of rows mvs \<and>
     xs = Select # map (download_rq tmp) rows @ upload_rq m ts # mvs @ map (update_rq ts) rows
            @ [insert_rq m ts]"
  using assms by (cases rule: trace_of.cases) auto

text \<open>
  C3, as the code has it. A run that returns after finding pending rows has made these
  requests, in this order: the query, one download for each row, the upload of the
  montage, one move for each row, one update for each row, and the insert of the output
  row. So the upload precedes every move and every update, and the insert of the output
  row follows them all.
\<close>

theorem publish_before_archive_insert_last:
  "\<not> IS_CREATING w \<Longrightarrow> run_build_pipeline env sv w = (Returned, w') \<Longrightarrow>
   incoming_query (files_table w) \<noteq> [] \<Longrightarrow>
   (\<exists>m ts mvs.
      build_montage_for_paths env
        (map (local_of (job_dir sv w)) (incoming_query (files_table w))) = Inr m \<and>
      list_all2 is_move_of (incoming_query (files_table w)) mvs \<and>
      new_log w w' =
        Select # map (download_rq (job_dir sv w)) (incoming_query (files_table w))
          @ [upload_rq m ts]
          @ mvs
          @ map (update_rq ts) (incoming_query (files_table w))
          @ [insert_rq m ts])"
proof -
  assume idle: "\<not> IS_CREATING w" and run: "run_build_pipeline env sv w = (Returned, w')"
    and ne: "incoming_query (files_table w) \<noteq> []"
  let ?rows = "incoming_query (files_table w)"
  from run_trace [OF idle run] obtain ts xs where
    t: "trace_of ?rows (job_dir sv w)
          (build_montage_for_paths env (map (local_of (job_dir sv w)) ?rows)) ts Returned xs"
    and l: "log w' = log w @ xs"
    by blast
  from trace_returned [OF t ne] obtain m mvs where
    "build_montage_for_paths env (map (local_of (job_dir sv w)) ?rows) = Inr m"
    "list_all2 is_move_of ?rows mvs"
    "xs = Select # map (download_rq (job_dir sv w)) ?rows @ upload_rq m ts # mvs
            @ map (update_rq ts) ?rows @ [insert_rq m ts]"
    by blast
  moreover from l have "new_log w w' = xs" by (rule new_log_append)
  ultimately show ?thesis by auto
qed

theorem publish_before_archive_insert_last_witness:
  "\<not> IS_CREATING ex_pending \<and>
   fst (run_build_pipeline ex_env ex_sv ex_pending) = Returned \<and>
   incoming_query (files_table ex_pending) \<noteq> [] \<and>
   (\<exists>m ts mvs.
      list_all2 is_move_of (incoming_query (files_table ex_pending)) mvs \<and>
      new_log ex_pending (snd (run_build_pipeline ex_env ex_sv ex_pending)) =
        Select # map (download_rq (job_dir ex_sv ex_pending)) (incoming_query (files_table ex_pending))
          @ [upload_rq m ts] @ mvs
          @ map (update_rq ts) (incoming_query (files_table ex_pending))
          @ [insert_rq m ts])"
proof -
  have idle: "\<not> IS_CREATING ex_pending" by (simp add: ex_pending_def ex_idle_def)
  have q: "incoming_query (files_table ex_pending) \<noteq> []"
    by (simp add: incoming_query_def ex_pending_def ex_idle_def ex_row_a_def ex_row_b_def)
  have r: "run_build_pipeline ex_env ex_sv ex_pending
      = (Returned, snd (run_build_pipeline ex_env ex_sv ex_pending))"
    using ex_success_run by (simp add: prod_eq_iff)
  from publish_before_archive_insert_last [OF idle r q] idle q ex_success_run
  show ?thesis by blast
qed

text \<open>
  C3 as stated fails at the run on two pending images where nothing raises: the output
  row is inserted after both moves and both updates.
\<close>

theorem insert_after_archive_counterexample:
  "fst (run_build_pipeline ex_env ex_sv ex_pending) = Returned \<and>
   log (snd (run_build_pipeline ex_env ex_sv ex_pending)) ! 4
     = Move ''incoming/a.png'' ''archive/a.png.sss'' \<and>
   log (snd (run_build_pipeline ex_env ex_sv ex_pending)) ! 6
     = Update 1 ''archive/a.png.sss'' \<and>
   log (snd (run_build_pipeline ex_env ex_sv ex_pending)) ! 8
     = Insert ''montage_output_sss.mp4'' ''outputs/montage_output_sss.mp4'' 2"
  by (simp add: ex_success_run)






text \<open>
  The run on two pending images where the storage refuses the first move of
  \<open>incoming/a.png\<close>: the fallback of \<open>sb_storage_move\<close> moves the object to
  \<open>archive/a.png.uuuuu.sss\<close>, the run returns, and the row is updated to
  \<open>archive/a.png.sss\<close>, the destination first asked for, where the bucket holds nothing.
\<close>

lemma ex_fallback_run:
  "fst (run_build_pipeline ex_env ex_sv_c ex_pending) = Returned \<and>
   log (snd (run_build_pipeline ex_env ex_sv_c ex_pending)) =
     [Select,
      Download ''incoming/a.png'' ''/w/job/a.png'',
      Download ''incoming/b.png'' ''/w/job/b.png'',
      Upload ''/w/job/montage_output.mp4'' ''outputs/montage_output_sss.mp4'',
      Move ''incoming/a.png'' ''archive/a.png.uuuuu.sss'',
      Move ''incoming/b.png'' ''archive/b.png.sss'',
      Update 1 ''archive/a.png.sss'',
      Update 2 ''archive/b.png.sss'',
      Insert ''montage_output_sss.mp4'' ''outputs/montage_output_sss.mp4'' 2] \<and>
   bucket (snd (run_build_pipeline ex_env ex_sv_c ex_pending)) ''incoming/a.png'' = None \<and>
   bucket (snd (run_build_pipeline ex_env ex_sv_c ex_pending)) ''archive/a.png.sss'' = None \<and>
   bucket (snd (run_build_pipeline ex_env ex_sv_c ex_pending)) ''archive/a.png.uuuuu.sss'' = Some [1] \<and>
   map file_path (files_table (snd (run_build_pipeline ex_env ex_sv_c ex_pending)))
     = [''archive/a.png.sss'', ''archive/b.png.sss'', ''outputs/montage_output_sss.mp4'']"
  by (simp add: run_build_pipeline_def pipeline_body_def sb_list_incoming_files_def attempt_def
      incoming_query_def Let_def ex_png_montage
      sb_storage_download_to_def sb_storage_upload_from_def sb_storage_move_def storage_move_def
      sb_update_file_paths_def sb_insert_output_row_def publish_and_archive_def
      path_join_def basename_def now_iso_def splitext_def fresh_id_def
      ex_sv_c_def ex_sv_def ex_pending_def ex_idle_def ex_row_a_def ex_row_b_def)



lemma final_clips_error:
  "final_clips_of env ps = Inl e \<Longrightarrow> e \<noteq> NoUsableClips"
proof -
  have v: "\<And>es e. compose_videos env es = Inl e \<Longrightarrow> e \<noteq> NoUsableClips"
  proof -
    fix es e show "compose_videos env es = Inl e \<Longrightarrow> e \<noteq> NoUsableClips"
      by (induction es arbitrary: e)
         (auto simp: resize_crop_9x16_video_def resize_height_def Let_def
            split: option.splits sum.splits if_splits)
  qed
  have i: "\<And>ims e. compose_images env ims = Inl e \<Longrightarrow> e \<noteq> NoUsableClips"
  proof -
    fix ims e show "compose_images env ims = Inl e \<Longrightarrow> e \<noteq> NoUsableClips"
      by (induction ims arbitrary: e)
         (auto simp: resize_crop_9x16_image_def resize_height_def Let_def
            split: option.splits sum.splits if_splits prod.splits)
  qed
  assume "final_clips_of env ps = Inl e"
  then show ?thesis
    using v i by (auto simp: final_clips_of_def Let_def split: sum.splits)
qed

lemma build_montage_no_clips:
  "build_montage_for_paths env ps = Inl NoUsableClips \<longleftrightarrow> final_clips_of env ps = Inr []"
  using final_clips_error [of env ps]
  by (auto simp: build_montage_for_paths_def Let_def split: sum.splits option.splits)

lemma trace_no_clips:
  assumes "trace_of rows tmp bm ts r xs" and "bm = Inl NoUsableClips" and "rows \<noteq> []"
    and "r \<noteq> Raised DiscoveryError" and "r \<noteq> Raised DownloadError"
  shows "r = Raised NoUsableClips \<and> xs = Select # map (download_rq tmp) rows"
  using assms by (cases rule: trace_of.cases) auto

lemma trace_raised_no_clips:
  assumes "trace_of rows tmp bm ts (Raised NoUsableClips) xs"
  shows "bm = Inl NoUsableClips \<and> rows \<noteq> [] \<and> xs = Select # map (download_rq tmp) rows"
  using assms by (cases rule: trace_of.cases) auto

text \<open>
  C8. When no clip survives (\<open>final_clips\<close> is empty) the montage builder raises the
  empty-composition error. A run that has found pending rows and downloaded them all,
  and whose clips are all filtered out, raises that error. And every run that raises it
  has made the query and the downloads of all pending rows and nothing else: no upload,
  no move, no update, no insert; the catalog, the storage and \<open>LAST_RUN\<close> are as before
  and the flag is cleared.
\<close>

theorem empty_composition_aborts:
  "(final_clips_of env ps = Inr [] \<longrightarrow> build_montage_for_paths env ps = Inl NoUsableClips) \<and>
   (\<not> IS_CREATING w \<and> run_build_pipeline env sv w = (r, w') \<and>
    incoming_query (files_table w) \<noteq> [] \<and>
    r \<noteq> Raised DiscoveryError \<and> r \<noteq> Raised DownloadError \<and>
    final_clips_of env (map (local_of (job_dir sv w)) (incoming_query (files_table w))) = Inr [] \<longrightarrow>
      r = Raised NoUsableClips) \<and>
   (\<not> IS_CREATING w \<and> run_build_pipeline env sv w = (Raised NoUsableClips, w') \<longrightarrow>
      final_clips_of env (map (local_of (job_dir sv w)) (incoming_query (files_table w))) = Inr [] \<and>
      new_log w w' = Select # map (download_rq (job_dir sv w)) (incoming_query (files_table w)) \<and>
      \<not> list_ex is_catalog_write (new_log w w') \<and> \<not> list_ex is_storage_write (new_log w w') \<and>
      files_table w' = files_table w \<and> bucket w' = bucket w \<and> LAST_RUN w' = LAST_RUN w \<and>
      \<not> IS_CREATING w')"
proof (intro conjI impI)
  assume "final_clips_of env ps = Inr []"
  then show "build_montage_for_paths env ps = Inl NoUsableClips"
    by (simp add: build_montage_no_clips)
next
  let ?rows = "incoming_query (files_table w)"
  assume a: "\<not> IS_CREATING w \<and> run_build_pipeline env sv w = (r, w') \<and> ?rows \<noteq> [] \<and>
    r \<noteq> Raised DiscoveryError \<and> r \<noteq> Raised DownloadError \<and>
    final_clips_of env (map (local_of (job_dir sv w)) ?rows) = Inr []"
  then have idle: "\<not> IS_CREATING w" and run: "run_build_pipeline env sv w = (r, w')" by simp_all
  from run_trace [OF idle run] obtain ts xs where
    t: "trace_of ?rows (job_dir sv w)
          (build_montage_for_paths env (map (local_of (job_dir sv w)) ?rows)) ts r xs"
    by blast
  from a have "build_montage_for_paths env (map (local_of (job_dir sv w)) ?rows) = Inl NoUsableClips"
    by (simp add: build_montage_no_clips)
  from trace_no_clips [OF t this] a show "r = Raised NoUsableClips" by simp
next
  let ?rows = "incoming_query (files_table w)"
  assume a: "\<not> IS_CREATING w \<and> run_build_pipeline env sv w = (Raised NoUsableClips, w')"
  then have idle: "\<not> IS_CREATING w"
    and run: "run_build_pipeline env sv w = (Raised NoUsableClips, w')" by simp_all
  from run_trace [OF idle run] obtain ts xs where
    t: "trace_of ?rows (job_dir sv w)
          (build_montage_for_paths env (map (local_of (job_dir sv w)) ?rows)) ts
          (Raised NoUsableClips) xs"
    and l: "log w' = log w @ xs" and i: "\<not> IS_CREATING w'"
    and c: "\<not> list_ex is_catalog_write xs \<longrightarrow> files_table w' = files_table w"
    and s: "\<not> list_ex is_storage_write xs \<longrightarrow> bucket w' = bucket w"
    and lr: "LAST_RUN w' = (if Raised NoUsableClips = Returned \<and> ?rows \<noteq> []
               then Some (isoformat sv (clock w')) else LAST_RUN w)"
    by blast
  from trace_raised_no_clips [OF t] have
    bm: "build_montage_for_paths env (map (local_of (job_dir sv w)) ?rows) = Inl NoUsableClips"
    and xs: "xs = Select # map (download_rq (job_dir sv w)) ?rows" by simp_all
  from l have nl: "new_log w w' = xs" by (rule new_log_append)
  have nw: "\<not> list_ex is_catalog_write xs" "\<not> list_ex is_storage_write xs"
    unfolding xs by (rule downloads_no_writes)+
  show "final_clips_of env (map (local_of (job_dir sv w)) ?rows) = Inr []"
    using bm by (simp add: build_montage_no_clips)
  show "new_log w w' = Select # map (download_rq (job_dir sv w)) ?rows"
    using nl xs by simp
  show "\<not> list_ex is_catalog_write (new_log w w')" using nw nl by simp
  show "\<not> list_ex is_storage_write (new_log w w')" using nw nl by simp
  show "files_table w' = files_table w" using c nw by simp
  show "bucket w' = bucket w" using s nw by simp
  show "LAST_RUN w' = LAST_RUN w" using lr by simp
  show "\<not> IS_CREATING w'" by (rule i)
qed

lemma ex_unusable_kinds:
  "endswith (lower ''/w/job/s.mp4'') video_exts" "\<not> endswith (lower ''/w/job/s.mp4'') image_exts"
  "\<not> endswith (lower ''/w/job/n.txt'') video_exts" "\<not> endswith (lower ''/w/job/n.txt'') image_exts"
  by (simp_all add: endswith_def endswith1_def lower_def lower_char_def video_exts_def image_exts_def)

lemma ex_unusable_clips:
  "final_clips_of ex_env_short [''/w/job/s.mp4'', ''/w/job/n.txt''] = Inr []"
  by (simp add: final_clips_of_def ex_unusable_kinds order_videos_def video_embedding_def
      MIN_CLIP_DURATION_def ex_env_short_def)

lemma ex_unusable_locals:
  "incoming_query (files_table ex_unusable) = [ex_row_s, ex_row_n]"
  "local_of (job_dir ex_sv ex_unusable) ex_row_s = ''/w/job/s.mp4''"
  "local_of (job_dir ex_sv ex_unusable) ex_row_n = ''/w/job/n.txt''"
  "download_rq (job_dir ex_sv ex_unusable) ex_row_s = Download ''incoming/s.mp4'' ''/w/job/s.mp4''"
  "download_rq (job_dir ex_sv ex_unusable) ex_row_n = Download ''incoming/n.txt'' ''/w/job/n.txt''"
  by (simp_all add: incoming_query_def local_of_def download_rq_def job_dir_def path_join_def
      basename_def ex_unusable_def ex_idle_def ex_row_s_def ex_row_n_def ex_sv_def)

lemma ex_unusable_run:
  "fst (run_build_pipeline ex_env_short ex_sv ex_unusable) = Raised NoUsableClips \<and>
   log (snd (run_build_pipeline ex_env_short ex_sv ex_unusable)) =
     [Select,
      Download ''incoming/s.mp4'' ''/w/job/s.mp4'',
      Download ''incoming/n.txt'' ''/w/job/n.txt'']"
  using ex_unusable_clips
  by (simp add: run_build_pipeline_def pipeline_body_def sb_list_incoming_files_def attempt_def
      incoming_query_def Let_def build_montage_for_paths_def
      sb_storage_download_to_def path_join_def basename_def now_iso_def
      ex_sv_def ex_unusable_def ex_idle_def ex_row_s_def ex_row_n_def)

theorem empty_composition_aborts_witness:
  "\<not> IS_CREATING ex_unusable \<and>
   incoming_query (files_table ex_unusable) \<noteq> [] \<and>
   final_clips_of ex_env_short
     (map (local_of (job_dir ex_sv ex_unusable)) (incoming_query (files_table ex_unusable))) = Inr [] \<and>
   fst (run_build_pipeline ex_env_short ex_sv ex_unusable) = Raised NoUsableClips \<and>
   new_log ex_unusable (snd (run_build_pipeline ex_env_short ex_sv ex_unusable)) =
     [Select,
      Download ''incoming/s.mp4'' ''/w/job/s.mp4'',
      Download ''incoming/n.txt'' ''/w/job/n.txt''] \<and>
   files_table (snd (run_build_pipeline ex_env_short ex_sv ex_unusable)) = files_table ex_unusable \<and>
   bucket (snd (run_build_pipeline ex_env_short ex_sv ex_unusable)) = bucket ex_unusable \<and>
   LAST_RUN (snd (run_build_pipeline ex_env_short ex_sv ex_unusable)) = LAST_RUN ex_unusable"
proof -
  have idle: "\<not> IS_CREATING ex_unusable" by (simp add: ex_unusable_def ex_idle_def)
  have r: "run_build_pipeline ex_env_short ex_sv ex_unusable
      = (Raised NoUsableClips, snd (run_build_pipeline ex_env_short ex_sv ex_unusable))"
    using ex_unusable_run by (simp add: prod_eq_iff)
  note th = empty_composition_aborts [where w = ex_unusable and env = ex_env_short and sv = ex_sv
      and r = "Raised NoUsableClips"
      and w' = "snd (run_build_pipeline ex_env_short ex_sv ex_unusable)"
      and ps = "[''/w/job/s.mp4'', ''/w/job/n.txt'']"]
  show ?thesis
    using th idle r ex_unusable_clips ex_unusable_run
    by (simp add: ex_unusable_locals)
qed

section \<open>Files with an extension the pipeline does not know\<close>

lemma basename_no_slash: "CHR ''/'' \<notin> set (basename p)"
  by (auto simp: basename_def dest: set_takeWhileD)

lemma path_join_split:
  "CHR ''/'' \<notin> set b \<Longrightarrow> \<exists>pre. path_join a b = pre @ b \<and> (pre = [] \<or> last pre = CHR ''/'')"
proof -
  assume nb: "CHR ''/'' \<notin> set b"
  then have h: "\<not> (b \<noteq> [] \<and> hd b = CHR ''/'')" by (cases b) auto
  show ?thesis
  proof (cases "a = [] \<or> last a = CHR ''/''")
    case True
    with h have "path_join a b = a @ b" by (auto simp: path_join_def)
    with True show ?thesis by blast
  next
    case False
    with h have "path_join a b = (a @ ''/'') @ b" by (auto simp: path_join_def)
    moreover have "last (a @ ''/'') = CHR ''/''" by simp
    ultimately show ?thesis by blast
  qed
qed

lemma suffix_after_sep:
  assumes "pre = [] \<or> last pre = c" and "c \<notin> set e"
  shows "suffix e (pre @ b) \<longleftrightarrow> suffix e b"
proof
  assume "suffix e b"
  then show "suffix e (pre @ b)" by (rule suffix_appendI)
next
  assume "suffix e (pre @ b)"
  then consider "suffix e b" | xs where "e = xs @ b" "suffix xs pre"
    by (auto simp: suffix_append)
  then show "suffix e b"
  proof cases
    case 1
    then show ?thesis .
  next
    case 2
    show ?thesis
    proof (cases "xs = []")
      case True
      with 2 show ?thesis by simp
    next
      case False
      from 2(2) obtain ys where p: "pre = ys @ xs" by (auto simp: suffix_def)
      with False have "last pre = last xs" by simp
      moreover from p False have "pre \<noteq> []" by simp
      ultimately have "last xs = c" using assms(1) by simp
      with False have "c \<in> set xs" using last_in_set by metis
      with 2(1) assms(2) show ?thesis by simp
    qed
  qed
qed

lemma lower_slash: "lower_char CHR ''/'' = CHR ''/''"
  by (simp add: lower_char_def)

lemma endswith_local_of:
  assumes "\<forall>e\<in>set es. CHR ''/'' \<notin> set e"
  shows "endswith (lower (local_of tmp x)) es = endswith (lower (basename (file_path x))) es"
proof -
  let ?b = "basename (file_path x)"
  from path_join_split [OF basename_no_slash] obtain pre where
    p: "path_join tmp ?b = pre @ ?b" "pre = [] \<or> last pre = CHR ''/''" by blast
  have l: "lower pre = [] \<or> last (lower pre) = CHR ''/''"
  proof (cases "pre = []")
    case True
    then show ?thesis by (simp add: lower_def)
  next
    case False
    with p(2) have "last (map lower_char pre) = lower_char CHR ''/''"
      by (simp add: last_map)
    then show ?thesis by (simp add: lower_def lower_slash)
  qed
  have "\<And>e. e \<in> set es \<Longrightarrow> suffix e (lower pre @ lower ?b) = suffix e (lower ?b)"
    using assms l by (intro suffix_after_sep) auto
  then show ?thesis
    by (simp add: endswith_iff local_of_def p(1) lower_def)
qed

lemma exts_no_slash:
  "\<forall>e\<in>set video_exts. CHR ''/'' \<notin> set e" "\<forall>e\<in>set image_exts. CHR ''/'' \<notin> set e"
  by (simp_all add: video_exts_def image_exts_def)

lemma unrecognized_not_composed:
  assumes "\<not> endswith (lower p) video_exts" and "\<not> endswith (lower p) image_exts"
  shows "p \<notin> set (map path (order_videos env (filter (\<lambda>q. endswith (lower q) video_exts) ps)))"
    and "final_clips_of env ps = Inr fcs \<Longrightarrow> p \<notin> set (map fst fcs)"
proof -
  show a: "p \<notin> set (map path (order_videos env (filter (\<lambda>q. endswith (lower q) video_exts) ps)))"
    using assms(1) by (simp only: set_path_order_videos) simp
  assume "final_clips_of env ps = Inr fcs"
  then have "map fst fcs =
      map path (order_videos env (filter (\<lambda>q. endswith (lower q) video_exts) ps))
        @ filter (\<lambda>q. endswith (lower q) image_exts) ps"
    by (rule map_fst_final_clips)
  then show "p \<notin> set (map fst fcs)"
    using a assms(2) by (simp only: set_append) simp
qed

lemma all_unrecognized_no_clips:
  assumes "\<forall>p\<in>set ps. \<not> endswith (lower p) video_exts \<and> \<not> endswith (lower p) image_exts"
  shows "final_clips_of env ps = Inr []"
proof -
  from assms have "filter (\<lambda>p. endswith (lower p) video_exts) ps = []"
    "filter (\<lambda>p. endswith (lower p) image_exts) ps = []"
    by (simp_all add: filter_empty_conv)
  then show ?thesis by (simp add: final_clips_of_def order_videos_def)
qed

text \<open>
  C10. A file is a video or an image by the extension of its local path, lowercased, and
  the local path ends in an extension exactly when the last component of the row's
  \<open>file_path\<close> does. A path that ends in none of the nine extensions is in no order
  the sequencer returns and is the source of no clip of \<open>final_clips\<close>. In a run that
  returns, every pending row, whatever its extension, is archived like any other: its
  object is no longer at the row's \<open>file_path\<close>; it has been moved to
  \<open>archive/<basename>.<ts>\<close> or to the destination of the collision fallback, where the
  bucket holds an object; the row has been updated to \<open>archive/<basename>.<ts>\<close>; and,
  the ids of the catalog being distinct, the catalog has the row and every row with that
  id names \<open>archive/<basename>.<ts>\<close>. And when no pending row has a known extension,
  a run that got through the query and the downloads raises the empty-composition error,
  having made the query and the download of every row and nothing else.
\<close>

theorem unrecognized_extension:
  "(endswith (lower (local_of tmp x)) video_exts
      \<longleftrightarrow> endswith (lower (basename (file_path x))) video_exts) \<and>
   (endswith (lower (local_of tmp x)) image_exts
      \<longleftrightarrow> endswith (lower (basename (file_path x))) image_exts) \<and>
   (\<not> endswith (lower p) video_exts \<and> \<not> endswith (lower p) image_exts \<longrightarrow>
      p \<notin> set (map path (order_videos env (filter (\<lambda>q. endswith (lower q) video_exts) ps))) \<and>
      (\<forall>fcs. final_clips_of env ps = Inr fcs \<longrightarrow> p \<notin> set (map fst fcs))) \<and>
   (\<not> IS_CREATING w \<and> run_build_pipeline env sv w = (Returned, w') \<and>
    x \<in> set (incoming_query (files_table w)) \<longrightarrow>
      (\<exists>c. bucket w' (file_path x) = None \<and>
           (\<exists>d. (d = archive_dest (strftime_sec sv c) x \<or>
                  (\<exists>v. d = fallback_dest (archive_dest (strftime_sec sv c) x) v)) \<and>
                Move (file_path x) d \<in> set (new_log w w') \<and> bucket w' d \<noteq> None) \<and>
           Update (row_id x) (archive_dest (strftime_sec sv c) x) \<in> set (new_log w w') \<and>
           (distinct (map row_id (files_table w)) \<longrightarrow>
              (\<exists>y\<in>set (files_table w'). row_id y = row_id x) \<and>
              (\<forall>y\<in>set (files_table w'). row_id y = row_id x \<longrightarrow>
                 file_path y = archive_dest (strftime_sec sv c) x)))) \<and>
   (\<not> IS_CREATING w \<and> run_build_pipeline env sv w = (r, w') \<and>
    incoming_query (files_table w) \<noteq> [] \<and>
    r \<noteq> Raised DiscoveryError \<and> r \<noteq> Raised DownloadError \<and>
    (\<forall>y\<in>set (incoming_query (files_table w)).
       \<not> endswith (lower (basename (file_path y))) video_exts \<and>
       \<not> endswith (lower (basename (file_path y))) image_exts) \<longrightarrow>
      r = Raised NoUsableClips \<and>
      new_log w w' = Select # map (download_rq (job_dir sv w)) (incoming_query (files_table w)))"
proof (intro conjI impI)
  show "endswith (lower (local_of tmp x)) video_exts
      \<longleftrightarrow> endswith (lower (basename (file_path x))) video_exts"
    by (rule endswith_local_of) (rule exts_no_slash)
  show "endswith (lower (local_of tmp x)) image_exts
      \<longleftrightarrow> endswith (lower (basename (file_path x))) image_exts"
    by (rule endswith_local_of) (rule exts_no_slash)
next
  assume a: "\<not> endswith (lower p) video_exts \<and> \<not> endswith (lower p) image_exts"
  then show "p \<notin> set (map path (order_videos env (filter (\<lambda>q. endswith (lower q) video_exts) ps)))"
    by (intro unrecognized_not_composed(1)) simp_all
  from a show "\<forall>fcs. final_clips_of env ps = Inr fcs \<longrightarrow> p \<notin> set (map fst fcs)"
    using unrecognized_not_composed(2) by blast
next
  let ?rows = "incoming_query (files_table w)"
  assume a: "\<not> IS_CREATING w \<and> run_build_pipeline env sv w = (Returned, w') \<and> x \<in> set ?rows"
  then have idle: "\<not> IS_CREATING w" and run: "run_build_pipeline env sv w = (Returned, w')"
    and x: "x \<in> set ?rows" by simp_all
  from x have ne: "?rows \<noteq> []" by auto
  have ok: "Returned = Returned \<or> Returned = Raised UpdateError \<or> Returned = Raised InsertError"
    by simp
  from run_archives [OF idle run ok ne] obtain c where
    ar: "\<forall>x\<in>set ?rows. archived w' (new_log w w') (strftime_sec sv c) x"
    and rl: "\<forall>x\<in>set ?rows.
           Update (row_id x) (archive_dest (strftime_sec sv c) x) \<in> set (new_log w w') \<and>
           (distinct (map row_id (files_table w)) \<longrightarrow> relocated w' (strftime_sec sv c) x)"
    by blast
  from ar rl x have "archived w' (new_log w w') (strftime_sec sv c) x \<and>
      Update (row_id x) (archive_dest (strftime_sec sv c) x) \<in> set (new_log w w') \<and>
      (distinct (map row_id (files_table w)) \<longrightarrow> relocated w' (strftime_sec sv c) x)"
    by blast
  then show "\<exists>c. bucket w' (file_path x) = None \<and>
           (\<exists>d. (d = archive_dest (strftime_sec sv c) x \<or>
                  (\<exists>v. d = fallback_dest (archive_dest (strftime_sec sv c) x) v)) \<and>
                Move (file_path x) d \<in> set (new_log w w') \<and> bucket w' d \<noteq> None) \<and>
           Update (row_id x) (archive_dest (strftime_sec sv c) x) \<in> set (new_log w w') \<and>
           (distinct (map row_id (files_table w)) \<longrightarrow>
              (\<exists>y\<in>set (files_table w'). row_id y = row_id x) \<and>
              (\<forall>y\<in>set (files_table w'). row_id y = row_id x \<longrightarrow>
                 file_path y = archive_dest (strftime_sec sv c) x))"
    unfolding archived_def relocated_def conj_assoc by (rule exI)
next
  let ?rows = "incoming_query (files_table w)"
  let ?tmp = "job_dir sv w"
  assume a: "\<not> IS_CREATING w \<and> run_build_pipeline env sv w = (r, w') \<and> ?rows \<noteq> [] \<and>
    r \<noteq> Raised DiscoveryError \<and> r \<noteq> Raised DownloadError \<and>
    (\<forall>y\<in>set ?rows.
       \<not> endswith (lower (basename (file_path y))) video_exts \<and>
       \<not> endswith (lower (basename (file_path y))) image_exts)"
  then have idle: "\<not> IS_CREATING w" and run: "run_build_pipeline env sv w = (r, w')" by simp_all
  from run_trace [OF idle run] obtain ts xs where
    t: "trace_of ?rows ?tmp (build_montage_for_paths env (map (local_of ?tmp) ?rows)) ts r xs"
    and l: "log w' = log w @ xs"
    by blast
  from l have nl: "new_log w w' = xs" by (rule new_log_append)
  from a have "\<forall>p\<in>set (map (local_of ?tmp) ?rows).
      \<not> endswith (lower p) video_exts \<and> \<not> endswith (lower p) image_exts"
    by (simp add: endswith_local_of exts_no_slash)
  then have "final_clips_of env (map (local_of ?tmp) ?rows) = Inr []"
    by (rule all_unrecognized_no_clips)
  then have "build_montage_for_paths env (map (local_of ?tmp) ?rows) = Inl NoUsableClips"
    by (simp add: build_montage_no_clips)
  from trace_no_clips [OF t this] a
  have "r = Raised NoUsableClips \<and> xs = Select # map (download_rq ?tmp) ?rows" by simp
  then show "r = Raised NoUsableClips"
    and "new_log w w' = Select # map (download_rq ?tmp) ?rows"
    unfolding nl by simp_all
qed

lemma ex_mixed_kinds:
  "\<not> endswith (lower ''/w/job/n.txt'') video_exts" "\<not> endswith (lower ''/w/job/n.txt'') image_exts"
  "\<not> endswith (lower ''n.txt'') video_exts" "\<not> endswith (lower ''n.txt'') image_exts"
  by (simp_all add: endswith_def endswith1_def lower_def lower_char_def video_exts_def image_exts_def)

lemma ex_mixed_montage:
  "build_montage_for_paths ex_env [''/w/job/a.png'', ''/w/job/n.txt''] =
     Inr \<lparr>out_path = ''/w/job/montage_output.mp4'',
          final_clips =
            [(''/w/job/a.png'', \<lparr>clip_w = 960, clip_h = 1920, clip_duration = 3, clip_x1 = 0\<rparr>)],
          out_bytes = [0]\<rparr>"
  by (simp add: build_montage_for_paths_def final_clips_of_def ex_png_kinds ex_mixed_kinds
      order_videos_def resize_crop_video_eq resize_crop_image_eq Let_def dirname_def
      path_join_def ex_fields)

lemma ex_mixed_run:
  "fst (run_build_pipeline ex_env ex_sv ex_mixed) = Returned \<and>
   log (snd (run_build_pipeline ex_env ex_sv ex_mixed)) =
     [Select,
      Download ''incoming/a.png'' ''/w/job/a.png'',
      Download ''incoming/n.txt'' ''/w/job/n.txt'',
      Upload ''/w/job/montage_output.mp4'' ''outputs/montage_output_sss.mp4'',
      Move ''incoming/a.png'' ''archive/a.png.sss'',
      Move ''incoming/n.txt'' ''archive/n.txt.sss'',
      Update 1 ''archive/a.png.sss'',
      Update 3 ''archive/n.txt.sss'',
      Insert ''montage_output_sss.mp4'' ''outputs/montage_output_sss.mp4'' 1]"
  by (simp add: run_build_pipeline_def pipeline_body_def sb_list_incoming_files_def attempt_def
      incoming_query_def Let_def ex_mixed_montage
      sb_storage_download_to_def sb_storage_upload_from_def sb_storage_move_def storage_move_def
      sb_update_file_paths_def sb_insert_output_row_def publish_and_archive_def
      path_join_def basename_def now_iso_def
      ex_sv_def ex_mixed_def ex_idle_def ex_row_a_def ex_row_n_def)

lemma ex_only_unknown_run:
  "fst (run_build_pipeline ex_env ex_sv ex_only_unknown) = Raised NoUsableClips \<and>
   log (snd (run_build_pipeline ex_env ex_sv ex_only_unknown)) =
     [Select, Download ''incoming/n.txt'' ''/w/job/n.txt'']"
  by (simp add: run_build_pipeline_def pipeline_body_def sb_list_incoming_files_def attempt_def
      incoming_query_def Let_def build_montage_for_paths_def final_clips_of_def ex_mixed_kinds
      order_videos_def
      sb_storage_download_to_def path_join_def basename_def now_iso_def
      ex_sv_def ex_only_unknown_def ex_idle_def ex_row_n_def)

lemma ex_upper: "endswith (lower ''CLIP.MP4'') video_exts"
  by code_simp

lemma ex_mixed_facts:
  "\<not> IS_CREATING ex_mixed" "log ex_mixed = []"
  "incoming_query (files_table ex_mixed) = [ex_row_a, ex_row_n]"
  "\<not> IS_CREATING ex_only_unknown" "log ex_only_unknown = []"
  "incoming_query (files_table ex_only_unknown) = [ex_row_n]"
  "file_path ex_row_n = ''incoming/n.txt''" "row_id ex_row_n = 3"
  "basename ''incoming/n.txt'' = ''n.txt''"
  "download_rq (job_dir ex_sv ex_only_unknown) ex_row_n = Download ''incoming/n.txt'' ''/w/job/n.txt''"
  by (simp_all add: incoming_query_def ex_mixed_def ex_only_unknown_def ex_idle_def
      ex_row_a_def ex_row_n_def basename_def download_rq_def local_of_def job_dir_def
      path_join_def ex_sv_def)

lemma ex_mixed_state:
  "bucket (snd (run_build_pipeline ex_env ex_sv ex_mixed)) ''incoming/n.txt'' = None \<and>
   bucket (snd (run_build_pipeline ex_env ex_sv ex_mixed)) ''archive/n.txt.sss'' = Some [3] \<and>
   map row_id (files_table (snd (run_build_pipeline ex_env ex_sv ex_mixed))) = [1, 3, 4] \<and>
   map file_path (files_table (snd (run_build_pipeline ex_env ex_sv ex_mixed)))
     = [''archive/a.png.sss'', ''archive/n.txt.sss'', ''outputs/montage_output_sss.mp4'']"
  by (simp add: run_build_pipeline_def pipeline_body_def sb_list_incoming_files_def attempt_def
      incoming_query_def Let_def ex_mixed_montage
      sb_storage_download_to_def sb_storage_upload_from_def sb_storage_move_def storage_move_def
      sb_update_file_paths_def sb_insert_output_row_def publish_and_archive_def
      path_join_def basename_def now_iso_def fresh_id_def
      ex_sv_def ex_mixed_def ex_idle_def ex_row_a_def ex_row_n_def)

theorem unrecognized_extension_witness:
  "\<not> endswith (lower (basename (file_path ex_row_n))) video_exts \<and>
   \<not> endswith (lower (basename (file_path ex_row_n))) image_exts \<and>
   \<not> endswith (lower (local_of ''/w/job'' ex_row_n)) video_exts \<and>
   \<not> endswith (lower (local_of ''/w/job'' ex_row_n)) image_exts \<and>
   (\<exists>m. build_montage_for_paths ex_env [''/w/job/a.png'', ''/w/job/n.txt''] = Inr m \<and>
        ''/w/job/n.txt'' \<notin> set (map fst (final_clips m))) \<and>
   fst (run_build_pipeline ex_env ex_sv ex_mixed) = Returned \<and>
   distinct (map row_id (files_table ex_mixed)) \<and>
   (\<exists>c. bucket (snd (run_build_pipeline ex_env ex_sv ex_mixed)) ''incoming/n.txt'' = None \<and>
        (\<exists>d. (d = archive_dest (strftime_sec ex_sv c) ex_row_n \<or>
               (\<exists>v. d = fallback_dest (archive_dest (strftime_sec ex_sv c) ex_row_n) v)) \<and>
             Move ''incoming/n.txt'' d
               \<in> set (new_log ex_mixed (snd (run_build_pipeline ex_env ex_sv ex_mixed))) \<and>
             bucket (snd (run_build_pipeline ex_env ex_sv ex_mixed)) d \<noteq> None) \<and>
        Update 3 (archive_dest (strftime_sec ex_sv c) ex_row_n)
          \<in> set (new_log ex_mixed (snd (run_build_pipeline ex_env ex_sv ex_mixed))) \<and>
        (\<exists>y. y \<in> set (files_table (snd (run_build_pipeline ex_env ex_sv ex_mixed))) \<and>
             row_id y = 3 \<and> file_path y = archive_dest (strftime_sec ex_sv c) ex_row_n)) \<and>
   bucket (snd (run_build_pipeline ex_env ex_sv ex_mixed)) ''archive/n.txt.sss'' = Some [3] \<and>
   map file_path (files_table (snd (run_build_pipeline ex_env ex_sv ex_mixed)))
     = [''archive/a.png.sss'', ''archive/n.txt.sss'', ''outputs/montage_output_sss.mp4''] \<and>
   fst (run_build_pipeline ex_env ex_sv ex_only_unknown) = Raised NoUsableClips \<and>
   new_log ex_only_unknown (snd (run_build_pipeline ex_env ex_sv ex_only_unknown))
     = [Select, Download ''incoming/n.txt'' ''/w/job/n.txt'']"
proof -
  let ?W = "snd (run_build_pipeline ex_env ex_sv ex_mixed)"
  note th1 = unrecognized_extension [where tmp = "''/w/job''" and x = ex_row_n
      and p = "''/w/job/n.txt''" and env = ex_env and ps = "[''/w/job/a.png'', ''/w/job/n.txt'']"
      and w = ex_mixed and sv = ex_sv and r = Returned
      and w' = "snd (run_build_pipeline ex_env ex_sv ex_mixed)"]
  note th2 = unrecognized_extension [where tmp = "''/w/job''" and x = ex_row_n
      and p = "''/w/job/n.txt''" and env = ex_env and ps = "[''/w/job/n.txt'']"
      and w = ex_only_unknown and sv = ex_sv
      and r = "Raised NoUsableClips"
      and w' = "snd (run_build_pipeline ex_env ex_sv ex_only_unknown)"]
  have r2: "run_build_pipeline ex_env ex_sv ex_only_unknown
      = (Raised NoUsableClips, snd (run_build_pipeline ex_env ex_sv ex_only_unknown))"
    using ex_only_unknown_run by (simp add: prod_eq_iff)
  have r1: "run_build_pipeline ex_env ex_sv ex_mixed
      = (Returned, snd (run_build_pipeline ex_env ex_sv ex_mixed))"
    using ex_mixed_run by (simp add: prod_eq_iff)
  have pk: "distinct (map row_id (files_table ex_mixed))"
    by (simp add: ex_mixed_def ex_idle_def ex_row_a_def ex_row_n_def)
  have k: "\<not> endswith (lower (basename (file_path ex_row_n))) video_exts"
    "\<not> endswith (lower (basename (file_path ex_row_n))) image_exts"
    by (simp_all add: ex_mixed_facts ex_mixed_kinds)
  from th1 k have loc: "\<not> endswith (lower (local_of ''/w/job'' ex_row_n)) video_exts"
    "\<not> endswith (lower (local_of ''/w/job'' ex_row_n)) image_exts"
    by simp_all
  from th1 have "\<not> IS_CREATING ex_mixed \<and> run_build_pipeline ex_env ex_sv ex_mixed = (Returned, ?W) \<and>
    ex_row_n \<in> set (incoming_query (files_table ex_mixed)) \<longrightarrow>
      (\<exists>c. bucket ?W (file_path ex_row_n) = None \<and>
           (\<exists>d. (d = archive_dest (strftime_sec ex_sv c) ex_row_n \<or>
                  (\<exists>v. d = fallback_dest (archive_dest (strftime_sec ex_sv c) ex_row_n) v)) \<and>
                Move (file_path ex_row_n) d \<in> set (new_log ex_mixed ?W) \<and> bucket ?W d \<noteq> None) \<and>
           Update (row_id ex_row_n) (archive_dest (strftime_sec ex_sv c) ex_row_n)
             \<in> set (new_log ex_mixed ?W) \<and>
           (distinct (map row_id (files_table ex_mixed)) \<longrightarrow>
              (\<exists>y\<in>set (files_table ?W). row_id y = row_id ex_row_n) \<and>
              (\<forall>y\<in>set (files_table ?W). row_id y = row_id ex_row_n \<longrightarrow>
                 file_path y = archive_dest (strftime_sec ex_sv c) ex_row_n)))"
    by (elim conjE)
  with r1 pk obtain c where c:
    "bucket ?W (file_path ex_row_n) = None"
    "\<exists>d. (d = archive_dest (strftime_sec ex_sv c) ex_row_n \<or>
                  (\<exists>v. d = fallback_dest (archive_dest (strftime_sec ex_sv c) ex_row_n) v)) \<and>
                Move (file_path ex_row_n) d \<in> set (new_log ex_mixed ?W) \<and> bucket ?W d \<noteq> None"
    "Update (row_id ex_row_n) (archive_dest (strftime_sec ex_sv c) ex_row_n)
             \<in> set (new_log ex_mixed ?W)"
    "\<exists>y\<in>set (files_table ?W). row_id y = row_id ex_row_n"
    "\<forall>y\<in>set (files_table ?W). row_id y = row_id ex_row_n \<longrightarrow>
                 file_path y = archive_dest (strftime_sec ex_sv c) ex_row_n"
    by (auto simp: ex_mixed_facts)
  from c(4,5) have c6: "\<exists>y. y \<in> set (files_table ?W) \<and> row_id y = 3 \<and>
      file_path y = archive_dest (strftime_sec ex_sv c) ex_row_n"
    by (auto simp: ex_mixed_facts)
  from c(1,2,3) c6 have mv: "\<exists>c. bucket ?W ''incoming/n.txt'' = None \<and>
        (\<exists>d. (d = archive_dest (strftime_sec ex_sv c) ex_row_n \<or>
               (\<exists>v. d = fallback_dest (archive_dest (strftime_sec ex_sv c) ex_row_n) v)) \<and>
             Move ''incoming/n.txt'' d \<in> set (new_log ex_mixed ?W) \<and> bucket ?W d \<noteq> None) \<and>
        Update 3 (archive_dest (strftime_sec ex_sv c) ex_row_n) \<in> set (new_log ex_mixed ?W) \<and>
        (\<exists>y. y \<in> set (files_table ?W) \<and> row_id y = 3 \<and>
             file_path y = archive_dest (strftime_sec ex_sv c) ex_row_n)"
    by (intro exI [of _ c]) (simp add: ex_mixed_facts)
  from th2 r2 have un: "fst (run_build_pipeline ex_env ex_sv ex_only_unknown) = Raised NoUsableClips \<and>
      new_log ex_only_unknown (snd (run_build_pipeline ex_env ex_sv ex_only_unknown))
        = [Select, Download ''incoming/n.txt'' ''/w/job/n.txt'']"
    using ex_only_unknown_run by (simp add: ex_mixed_facts ex_mixed_kinds)
  have m: "\<exists>m. build_montage_for_paths ex_env [''/w/job/a.png'', ''/w/job/n.txt''] = Inr m \<and>
        ''/w/job/n.txt'' \<notin> set (map fst (final_clips m))"
    by (simp add: ex_mixed_montage)
  have st: "bucket ?W ''archive/n.txt.sss'' = Some [3]"
    "map file_path (files_table ?W)
     = [''archive/a.png.sss'', ''archive/n.txt.sss'', ''outputs/montage_output_sss.mp4'']"
    using ex_mixed_state by simp_all
  have ret: "fst (run_build_pipeline ex_env ex_sv ex_mixed) = Returned" using ex_mixed_run by simp
  from k loc m ret pk mv st un show ?thesis by (intro conjI) simp_all
qed

section \<open>Single flight\<close>



















end
